theory Spec2Isabelle
  imports Complex_Main "HOL-Library.Word" "HOL-Library.Signed_Division" "HOL-Library.Sublist"
begin

section \<open>The PRAXIS registry (cmd/registry/main.go, storage/redis.go)\<close>

text \<open>
  The registry node keeps two Go maps, \<open>Registrations\<close> (peer identity to record) and
  \<open>ServiceIndex\<close> (service name to a slice of peer identities), and a replay set
  \<open>seenStakeNonces\<close>. Its operations are the stream handler (\<open>register\<close>, \<open>find\<close>), the
  eviction loop and the restore at startup. Each is written here as a function from the
  state to the new state, the response and the sequence of lock and I/O events it performs.

  A Go \<open>string\<close> is a byte sequence: it is a HOL \<open>string\<close>. A Go map is a partial function;
  where the code ranges over a map, the order in which the runtime yields the keys is an
  argument of the model, since Go leaves it unspecified.
\<close>

subsection \<open>Numbers and their rendering by \<open>fmt\<close>\<close>

text \<open>
  A \<open>float64\<close> is a finite value (held by the rational it denotes), negative zero, an
  infinity or NaN. Comparison is IEEE comparison: false as soon as NaN is involved, and
  the two zeros are equal.
\<close>

datatype gofloat = Finite rat | NegZero | PosInf | NegInf | NaN

fun fval :: "gofloat \<Rightarrow> rat" where
  "fval (Finite r) = r"
| "fval _ = 0"

fun float_lt :: "gofloat \<Rightarrow> gofloat \<Rightarrow> bool" where
  "float_lt NaN b = False"
| "float_lt a NaN = False"
| "float_lt PosInf b = False"
| "float_lt a PosInf = True"
| "float_lt a NegInf = False"
| "float_lt NegInf b = True"
| "float_lt a b = (fval a < fval b)"

definition digit_char :: "nat \<Rightarrow> char" where
  "digit_char d = ''0123456789'' ! d"

fun show_nat :: "nat \<Rightarrow> string" where
  "show_nat n = (if n < 10 then [digit_char n] else show_nat (n div 10) @ [digit_char (n mod 10)])"

declare show_nat.simps [simp del]

text \<open>The verb \<open>%d\<close> on an \<open>int64\<close>.\<close>

definition show_int :: "int \<Rightarrow> string" where
  "show_int i = (if i < 0 then CHR ''-'' # show_nat (nat (- i)) else show_nat (nat i))"

definition fmt_d :: "64 word \<Rightarrow> string" where
  "fmt_d w = show_int (sint w)"

definition pad_zeros :: "nat \<Rightarrow> string \<Rightarrow> string" where
  "pad_zeros w s = replicate (w - length s) (CHR ''0'') @ s"

text \<open>
  The verbs \<open>%.2f\<close> and \<open>%f\<close> (six decimals): the exact value is rounded to \<open>prec\<close>
  decimals, to nearest and to even on a tie, and the sign is kept also where the rounded
  value is zero.
\<close>

definition round_scaled :: "nat \<Rightarrow> rat \<Rightarrow> nat" where
  "round_scaled prec a =
     (let scaled = a * 10 ^ prec;
          n = nat \<lfloor>scaled\<rfloor>;
          frac = scaled - of_nat n
      in if 1 / 2 < frac \<or> (frac = 1 / 2 \<and> odd n) then n + 1 else n)"

definition fixed_digits :: "nat \<Rightarrow> rat \<Rightarrow> string" where
  "fixed_digits prec a =
     (let n = round_scaled prec a
      in show_nat (n div 10 ^ prec) @
         (if prec = 0 then [] else CHR ''.'' # pad_zeros prec (show_nat (n mod 10 ^ prec))))"

fun fmt_f :: "nat \<Rightarrow> gofloat \<Rightarrow> string" where
  "fmt_f prec (Finite r) = (if r < 0 then CHR ''-'' # fixed_digits prec (- r) else fixed_digits prec r)"
| "fmt_f prec NegZero = CHR ''-'' # fixed_digits prec 0"
| "fmt_f prec PosInf = ''+Inf''"
| "fmt_f prec NegInf = ''-Inf''"
| "fmt_f prec NaN = ''NaN''"

subsection \<open>The data model (common types, RegistrationRecord, RegistryNode)\<close>

type_synonym peer_id = string

text \<open>Instants and durations are counted in nanoseconds.\<close>

type_synonym time = int

definition Second :: int where
  "Second = 1000000000"

definition maxDuration :: int where
  "maxDuration = 2 ^ 63 - 1"

definition minDuration :: int where
  "minDuration = - (2 ^ 63)"

text \<open>\<open>t.Sub(u)\<close>: the difference as a \<open>Duration\<close> (an \<open>int64\<close>), saturating at both ends.\<close>

definition time_Sub :: "time \<Rightarrow> time \<Rightarrow> int" where
  "time_Sub t u =
     (if t - u > maxDuration then maxDuration
      else if t - u < minDuration then minDuration
      else t - u)"

record ServiceCard =
  Name :: string
  Description :: string
  Inputs :: "string list"
  CostPerOp :: gofloat
  Version :: string
  Tags :: "string list"
  Embedding :: "gofloat list"

record StakeProof =
  TxHash :: string
  Staker :: string
  Amount :: gofloat
  Nonce :: "64 word"
  Timestamp :: "64 word"
  ChainID :: string
  Signature :: string

record AddrInfo =
  ID :: peer_id
  Addrs :: "string list"

record RegistrationRecord =
  LastSeen :: time
  ServiceCard :: ServiceCard
  StakeProof :: "StakeProof option"
  AddrInfo :: AddrInfo

record RegistryRequest =
  Method :: string
  Card :: ServiceCard
  Query :: string
  req_StakeProof :: "StakeProof option"
  ProviderInfo :: "AddrInfo option"

record RegistryResponse =
  Success :: bool
  Providers :: "AddrInfo list"
  Error :: string

text \<open>
  A public key is what its \<open>Verify\<close> method answers on a digest and a signature: the
  pair \<open>(ok, err)\<close>.
\<close>

type_synonym pubkey = "string \<Rightarrow> string \<Rightarrow> bool \<times> string option"

text \<open>
  The functions of libraries that the registry calls and whose code is not part of the
  repository: SHA-256, the renderings and the parser of a peer identity, \<open>strings.ToLower\<close>,
  the runes that \<open>range\<close> yields on a string, and the JSON decoder of a stored record.
\<close>

record extern =
  sha256_Sum256 :: "string \<Rightarrow> string"
  peer_String :: "peer_id \<Rightarrow> string"
  peer_ShortString :: "peer_id \<Rightarrow> string"
  peer_Decode :: "string \<Rightarrow> peer_id option"
  strings_ToLower :: "string \<Rightarrow> string"
  range_runes :: "string \<Rightarrow> int list"
  json_Unmarshal :: "string \<Rightarrow> RegistrationRecord option"

text \<open>
  \<open>Host_PubKey\<close> is \<open>r.Host.Peerstore().PubKey\<close>; \<open>qdrant\<close> and \<open>storage\<close> say whether
  the optional clients are configured (non-nil).
\<close>

record RegistryNode =
  Host_PubKey :: "peer_id \<Rightarrow> pubkey option"
  Registrations :: "peer_id \<rightharpoonup> RegistrationRecord"
  ServiceIndex :: "string \<rightharpoonup> peer_id list"
  minStake :: gofloat
  seenStakeNonces :: "string set"
  qdrant :: bool
  storage :: bool

subsection \<open>checkStakeValidity\<close>

text \<open>An error made by \<open>fmt.Errorf\<close>: the format it was made with and its arguments.\<close>

datatype stake_error =
    ErrStakeRequired gofloat
  | ErrStakeTooLow gofloat gofloat
  | ErrStakerMismatch string string
  | ErrMissingPubkey string
  | ErrVerifyFailed string
  | ErrSignatureInvalid

fun err_Error :: "stake_error \<Rightarrow> string" where
  "err_Error (ErrStakeRequired m) = ''stake proof required (min '' @ fmt_f 2 m @ '')''"
| "err_Error (ErrStakeTooLow a m) = ''stake too low: have '' @ fmt_f 2 a @ '' need '' @ fmt_f 2 m"
| "err_Error (ErrStakerMismatch short staker) =
     ''stake staker mismatch (expected '' @ short @ '' got '' @ staker @ '')''"
| "err_Error (ErrMissingPubkey short) = ''missing pubkey for '' @ short"
| "err_Error (ErrVerifyFailed e) = ''stake signature verify failed: '' @ e"
| "err_Error ErrSignatureInvalid = ''stake signature invalid''"

definition stake_payload :: "StakeProof \<Rightarrow> string" where
  "stake_payload p =
     TxHash p @ ''|'' @ fmt_f 6 (Amount p) @ ''|'' @ fmt_d (Nonce p) @ ''|'' @
     fmt_d (Timestamp p) @ ''|'' @ ChainID p"

definition checkStakeValidity ::
  "extern \<Rightarrow> RegistryNode \<Rightarrow> peer_id \<Rightarrow> StakeProof option \<Rightarrow> stake_error option" where
  "checkStakeValidity x r remote proof =
     (case proof of
        None \<Rightarrow> Some (ErrStakeRequired (minStake r))
      | Some p \<Rightarrow>
          if float_lt (Amount p) (minStake r) then Some (ErrStakeTooLow (Amount p) (minStake r))
          else if Staker p \<noteq> [] \<and> Staker p \<noteq> peer_String x remote
            then Some (ErrStakerMismatch (peer_ShortString x remote) (Staker p))
          else (case Host_PubKey r remote of
                  None \<Rightarrow> Some (ErrMissingPubkey (peer_ShortString x remote))
                | Some pubKey \<Rightarrow>
                    (case pubKey (sha256_Sum256 x (stake_payload p)) (Signature p) of
                       (ok, err) \<Rightarrow>
                         if err \<noteq> None \<or> \<not> ok
                         then (case err of
                                 Some e \<Rightarrow> Some (ErrVerifyFailed e)
                               | None \<Rightarrow> Some ErrSignatureInvalid)
                         else None)))"

subsection \<open>Strings and the embedding (simpleTextEmbedding, buildServiceEmbedding)\<close>

fun strings_Join :: "string list \<Rightarrow> string \<Rightarrow> string" where
  "strings_Join [] sep = []"
| "strings_Join [a] sep = a"
| "strings_Join (a # b # rest) sep = a @ sep @ strings_Join (b # rest) sep"

fun strings_Contains :: "string \<Rightarrow> string \<Rightarrow> bool" where
  "strings_Contains [] substr = (substr = [])"
| "strings_Contains (c # s) substr = (prefix substr (c # s) \<or> strings_Contains s substr)"

definition strings_TrimPrefix :: "string \<Rightarrow> string \<Rightarrow> string" where
  "strings_TrimPrefix s pre = (if prefix pre s then drop (length pre) s else s)"

text \<open>
  The vector is a \<open>[]float32\<close> that starts at zero and only ever has \<open>1.0\<close> added to a
  component, so every component is a non-negative integer: it is held as that integer.
  A \<open>float32\<close> has a significand of 24 bits; \<open>f32_round\<close> rounds a natural number to the
  nearest such value, to even on a tie, which is what the addition does to its exact result.
\<close>

fun bit_length :: "nat \<Rightarrow> nat" where
  "bit_length n = (if n = 0 then 0 else Suc (bit_length (n div 2)))"

declare bit_length.simps [simp del]

definition f32_round :: "nat \<Rightarrow> nat" where
  "f32_round n =
     (if n < 2 ^ 24 then n
      else let e = bit_length n - 24;
               q = n div 2 ^ e;
               rest = n mod 2 ^ e;
               half = 2 ^ (e - 1)
           in if half < rest \<or> (rest = half \<and> odd q) then (q + 1) * 2 ^ e else q * 2 ^ e)"

definition f32_add_one :: "nat \<Rightarrow> nat" where
  "f32_add_one v = f32_round (v + 1)"

definition defaultEmbeddingDim :: int where
  "defaultEmbeddingDim = 64"

text \<open>One turn of the loop over the runes: Go's \<open>%\<close> truncates, hence the correction.\<close>

definition embed_step :: "int \<Rightarrow> int \<Rightarrow> nat list \<Rightarrow> nat list" where
  "embed_step dm r vec =
     (let idx = r smod dm;
          idx = (if idx < 0 then idx + dm else idx)
      in vec[nat idx := f32_add_one (vec ! nat idx)])"

definition simpleTextEmbedding :: "extern \<Rightarrow> string \<Rightarrow> int \<Rightarrow> nat list" where
  "simpleTextEmbedding x text dm0 =
     (let dm = (if dm0 \<le> 0 then defaultEmbeddingDim else dm0)
      in fold (embed_step dm) (range_runes x text) (replicate (nat dm) 0))"

definition buildServiceEmbedding :: "extern \<Rightarrow> ServiceCard \<Rightarrow> nat list" where
  "buildServiceEmbedding x c =
     (let textParts = [Name c, Description c];
          textParts = (if length (Tags c) > 0
                       then textParts @ [strings_Join (Tags c) '' '']
                       else textParts);
          text = strings_ToLower x (strings_Join textParts '' '')
      in simpleTextEmbedding x text defaultEmbeddingDim)"

text \<open>The vector that semanticSearchServices computes for its query.\<close>

definition semantic_query_vector :: "extern \<Rightarrow> string \<Rightarrow> nat list" where
  "semantic_query_vector x query =
     simpleTextEmbedding x (strings_ToLower x query) defaultEmbeddingDim"

subsection \<open>Index helpers\<close>

text \<open>Reading a Go map at a missing key gives the zero value, here the nil slice.\<close>

definition index_get :: "(string \<rightharpoonup> peer_id list) \<Rightarrow> string \<Rightarrow> peer_id list" where
  "index_get m k = (case m k of None \<Rightarrow> [] | Some l \<Rightarrow> l)"

definition addToIndex :: "peer_id \<Rightarrow> string \<Rightarrow> RegistryNode \<Rightarrow> RegistryNode" where
  "addToIndex pid serviceName r =
     (let list = index_get (ServiceIndex r) serviceName
      in if pid \<in> set list then r
         else r\<lparr>ServiceIndex := (ServiceIndex r)(serviceName \<mapsto> list @ [pid])\<rparr>)"

definition removeFromIndex :: "peer_id \<Rightarrow> string \<Rightarrow> RegistryNode \<Rightarrow> RegistryNode" where
  "removeFromIndex pid serviceName r =
     (let list = index_get (ServiceIndex r) serviceName;
          newList = filter (\<lambda>id. id \<noteq> pid) list
      in r\<lparr>ServiceIndex := (ServiceIndex r)(serviceName \<mapsto> newList)\<rparr>)"

subsection \<open>Events\<close>

text \<open>
  What a handler does to the two mutexes and which calls it makes to the durable store
  (Redis) and to the vector index (Qdrant), in program order. A call to the store or to
  the index is an event only where the client is configured: on a nil client the method
  returns at once.
\<close>

datatype event =
    MuLock | MuUnlock
  | StakeMuLock | StakeMuUnlock
  | CallSaveRegistration peer_id RegistrationRecord
  | CallDeleteRegistration peer_id string
  | CallRestoreAllRegistrations
  | CallUpsertService string "nat list"

definition save_events :: "RegistryNode \<Rightarrow> peer_id \<Rightarrow> RegistrationRecord \<Rightarrow> event list" where
  "save_events r pid record = (if storage r then [CallSaveRegistration pid record] else [])"

definition delete_events :: "RegistryNode \<Rightarrow> peer_id \<Rightarrow> string \<Rightarrow> event list" where
  "delete_events r pid serviceName = (if storage r then [CallDeleteRegistration pid serviceName] else [])"

subsection \<open>handleStream\<close>

definition resp0 :: RegistryResponse where
  "resp0 = \<lparr>Success = False, Providers = [], Error = []\<rparr>"

definition isHeartbeat :: "RegistrationRecord option \<Rightarrow> RegistryRequest \<Rightarrow> bool" where
  "isHeartbeat existing req =
     (case existing of
        None \<Rightarrow> False
      | Some e \<Rightarrow>
          (case StakeProof e of
             None \<Rightarrow> False
           | Some ep \<Rightarrow>
               (case req_StakeProof req of
                  None \<Rightarrow> False
                | Some rp \<Rightarrow> TxHash ep = TxHash rp)))"

definition replay_key :: "StakeProof \<Rightarrow> string" where
  "replay_key p = TxHash p @ ''|'' @ fmt_d (Nonce p)"

text \<open>
  The \<open>register\<close> case. \<open>now\<close> is what \<open>time.Now()\<close> returns on the path taken. The
  result is the response, the events and the new state. Where the code reads
  \<open>req.StakeProof.TxHash\<close> after the stake check, the model has a branch for a missing
  proof; it is never taken, since checkStakeValidity rejects a missing proof.
\<close>

definition handle_register ::
  "extern \<Rightarrow> time \<Rightarrow> peer_id \<Rightarrow> RegistryRequest \<Rightarrow> RegistryNode
     \<Rightarrow> RegistryResponse \<times> event list \<times> RegistryNode" where
  "handle_register x now remotePeer req r =
     (let existing = Registrations r remotePeer
      in if isHeartbeat existing req then
           (case Registrations r remotePeer of
              None \<Rightarrow> (resp0, [MuLock, MuUnlock, MuLock, MuUnlock], r)
            | Some entry \<Rightarrow>
                (let entry = entry\<lparr>LastSeen := now\<rparr>;
                     entry = (case ProviderInfo req of
                                None \<Rightarrow> entry
                              | Some info \<Rightarrow> entry\<lparr>AddrInfo := info\<rparr>)
                 in (resp0\<lparr>Success := True\<rparr>,
                     [MuLock, MuUnlock, MuLock] @ save_events r remotePeer entry @ [MuUnlock],
                     r\<lparr>Registrations := (Registrations r)(remotePeer \<mapsto> entry)\<rparr>)))
         else
           (case checkStakeValidity x r remotePeer (req_StakeProof req) of
              Some err \<Rightarrow> (resp0\<lparr>Error := err_Error err\<rparr>, [MuLock, MuUnlock], r)
            | None \<Rightarrow>
                (case req_StakeProof req of
                   None \<Rightarrow> (resp0, [MuLock, MuUnlock], r)
                 | Some sp \<Rightarrow>
                     (let key = replay_key sp
                      in if key \<in> seenStakeNonces r then
                           (resp0\<lparr>Error := ''stake proof already used (replay detected)''\<rparr>,
                            [MuLock, MuUnlock, StakeMuLock, StakeMuUnlock], r)
                         else
                           (let r = r\<lparr>seenStakeNonces := insert key (seenStakeNonces r)\<rparr>;
                                embedding = buildServiceEmbedding x (Card req);
                                r = (case existing of
                                       None \<Rightarrow> r
                                     | Some e \<Rightarrow>
                                         if Name (ServiceCard e) \<noteq> Name (Card req)
                                         then removeFromIndex remotePeer (Name (ServiceCard e)) r
                                         else r);
                                (saved, r) =
                                  (case ProviderInfo req of
                                     None \<Rightarrow> ([], r)
                                   | Some info \<Rightarrow>
                                       (let newRecord =
                                              \<lparr>LastSeen = now, ServiceCard = Card req,
                                               StakeProof = req_StakeProof req, AddrInfo = info\<rparr>;
                                            r = r\<lparr>Registrations :=
                                                   (Registrations r)(remotePeer \<mapsto> newRecord)\<rparr>;
                                            r = addToIndex remotePeer (Name (Card req)) r
                                        in (save_events r remotePeer newRecord, r)))
                            in (resp0\<lparr>Success := True\<rparr>,
                                [MuLock, MuUnlock, StakeMuLock, StakeMuUnlock, MuLock] @ saved @
                                [MuUnlock] @
                                (if qdrant r \<and> length embedding > 0
                                 then [CallUpsertService
                                         (peer_String x remotePeer @ '':'' @ Name (Card req))
                                         embedding]
                                 else []),
                                r))))))"

text \<open>
  The \<open>find\<close> case. \<open>names\<close> is the order in which \<open>range r.ServiceIndex\<close> yields the
  keys of the index.
\<close>

definition find_providers ::
  "extern \<Rightarrow> string list \<Rightarrow> string \<Rightarrow> RegistryNode \<Rightarrow> AddrInfo list" where
  "find_providers x names query r =
     concat (map (\<lambda>name.
        case ServiceIndex r name of
          None \<Rightarrow> []
        | Some peerIDs \<Rightarrow>
            if strings_Contains (strings_ToLower x name) query
            then List.map_filter (\<lambda>pid. map_option AddrInfo (Registrations r pid)) peerIDs
            else []) names)"

definition handle_find ::
  "extern \<Rightarrow> string list \<Rightarrow> RegistryRequest \<Rightarrow> RegistryNode
     \<Rightarrow> RegistryResponse \<times> event list \<times> RegistryNode" where
  "handle_find x names req r =
     (let query = strings_ToLower x (Query req);
          results = find_providers x names query r
      in (resp0\<lparr>Providers := results, Success := True\<rparr>, [MuLock, MuUnlock], r))"

definition handleStream ::
  "extern \<Rightarrow> time \<Rightarrow> string list \<Rightarrow> peer_id \<Rightarrow> RegistryRequest \<Rightarrow> RegistryNode
     \<Rightarrow> RegistryResponse \<times> event list \<times> RegistryNode" where
  "handleStream x now names remotePeer req r =
     (if Method req = ''register'' then handle_register x now remotePeer req r
      else if Method req = ''find'' then handle_find x names req r
      else (resp0\<lparr>Error := ''Unknown method''\<rparr>, [], r))"

subsection \<open>gcLoop\<close>

text \<open>
  One tick of the ticker. \<open>pids\<close> is the order in which \<open>range r.Registrations\<close> yields
  the keys; an entry deleted before its turn is not visited.
\<close>

fun gc_range :: "time \<Rightarrow> peer_id list \<Rightarrow> RegistryNode \<Rightarrow> event list \<times> RegistryNode" where
  "gc_range now [] r = ([], r)"
| "gc_range now (pid # pids) r =
     (case Registrations r pid of
        None \<Rightarrow> gc_range now pids r
      | Some record \<Rightarrow>
          if time_Sub now (LastSeen record) > 90 * Second then
            (let r' = r\<lparr>Registrations := (Registrations r)(pid := None)\<rparr>;
                 r' = removeFromIndex pid (Name (ServiceCard record)) r';
                 (evs, r'') = gc_range now pids r'
             in (delete_events r pid (Name (ServiceCard record)) @ evs, r''))
          else gc_range now pids r)"

definition gcTick :: "time \<Rightarrow> peer_id list \<Rightarrow> RegistryNode \<Rightarrow> event list \<times> RegistryNode" where
  "gcTick now pids r = (let (evs, r') = gc_range now pids r in (MuLock # evs @ [MuUnlock], r'))"

definition tickerPeriod :: int where
  "tickerPeriod = 10 * Second"

subsection \<open>Restore (RestoreAllRegistrations, restoreStateFromRedis)\<close>

text \<open>
  What the Redis client answers during the scan: the keys that the iterator yields for
  the pattern \<open>registration:*\<close>, each with the answer of \<open>Get\<close> (\<open>None\<close> for an error),
  and whether the iterator ends with an error.
\<close>

record redis_scan =
  scan_entries :: "(string \<times> string option) list"
  scan_err :: bool

fun restore_range ::
  "extern \<Rightarrow> time \<Rightarrow> (string \<times> string option) list \<Rightarrow> (peer_id \<rightharpoonup> RegistrationRecord)
     \<Rightarrow> (peer_id \<rightharpoonup> RegistrationRecord)" where
  "restore_range x now [] registrations = registrations"
| "restore_range x now ((key, got) # rest) registrations =
     (case got of
        None \<Rightarrow> restore_range x now rest registrations
      | Some data \<Rightarrow>
          (case json_Unmarshal x data of
             None \<Rightarrow> restore_range x now rest registrations
           | Some record \<Rightarrow>
               if time_Sub now (LastSeen record) > 90 * Second
               then restore_range x now rest registrations
               else (case peer_Decode x (strings_TrimPrefix key ''registration:'') of
                       None \<Rightarrow> restore_range x now rest registrations
                     | Some pid \<Rightarrow> restore_range x now rest (registrations(pid \<mapsto> record)))))"

definition RestoreAllRegistrations ::
  "extern \<Rightarrow> time \<Rightarrow> redis_scan \<Rightarrow> string + (peer_id \<rightharpoonup> RegistrationRecord)" where
  "RestoreAllRegistrations x now sc =
     (let registrations = restore_range x now (scan_entries sc) Map.empty
      in if scan_err sc then Inl ''redis scan error'' else Inr registrations)"

fun restore_install ::
  "(peer_id \<rightharpoonup> RegistrationRecord) \<Rightarrow> peer_id list \<Rightarrow> RegistryNode \<Rightarrow> RegistryNode" where
  "restore_install storageRecords [] r = r"
| "restore_install storageRecords (pid # pids) r =
     (case storageRecords pid of
        None \<Rightarrow> restore_install storageRecords pids r
      | Some record \<Rightarrow>
          restore_install storageRecords pids
            (addToIndex pid (Name (ServiceCard record))
               (r\<lparr>Registrations := (Registrations r)(pid \<mapsto> record)\<rparr>)))"

text \<open>
  \<open>pids\<close> is the order in which \<open>range storageRecords\<close> yields the keys. The first
  component of the result is the error returned, if any.
\<close>

definition restoreStateFromRedis ::
  "extern \<Rightarrow> time \<Rightarrow> redis_scan \<Rightarrow> peer_id list \<Rightarrow> RegistryNode
     \<Rightarrow> string option \<times> event list \<times> RegistryNode" where
  "restoreStateFromRedis x now sc pids r =
     (if \<not> storage r then (None, [], r)
      else (case RestoreAllRegistrations x now sc of
              Inl err \<Rightarrow> (Some (''failed to restore registrations: '' @ err), [CallRestoreAllRegistrations], r)
            | Inr storageRecords \<Rightarrow>
                if dom storageRecords = {} then (None, [CallRestoreAllRegistrations], r)
                else (None, [CallRestoreAllRegistrations, MuLock, MuUnlock],
                      restore_install storageRecords pids r)))"

text \<open>The node as startRegistry makes it, before the restore.\<close>

definition new_node :: "(peer_id \<Rightarrow> pubkey option) \<Rightarrow> gofloat \<Rightarrow> bool \<Rightarrow> bool \<Rightarrow> RegistryNode" where
  "new_node host m q st =
     \<lparr>Host_PubKey = host, Registrations = Map.empty, ServiceIndex = Map.empty, minStake = m,
      seenStakeNonces = {}, qdrant = q, storage = st\<rparr>"

subsection \<open>Runs of the registry\<close>

text \<open>
  The registry changes its state in two ways: a stream is handled, or the ticker of the
  eviction loop fires. A run is a sequence of such operations.
\<close>

datatype op =
    Stream time "string list" peer_id RegistryRequest
  | Tick time "peer_id list"

fun step :: "extern \<Rightarrow> op \<Rightarrow> RegistryNode \<Rightarrow> RegistryNode" where
  "step x (Stream now names remotePeer req) r = snd (snd (handleStream x now names remotePeer req r))"
| "step x (Tick now pids) r = snd (gcTick now pids r)"

fun run :: "extern \<Rightarrow> op list \<Rightarrow> RegistryNode \<Rightarrow> RegistryNode" where
  "run x [] r = r"
| "run x (o1 # ops) r = run x ops (step x o1 r)"

subsection \<open>Properties named by the specification\<close>

text \<open>
  Invariant A: every registered peer is listed, exactly once, under the name of its card.
  Invariant B: every listed peer is registered under the name it is listed at.
\<close>

definition inv_A :: "RegistryNode \<Rightarrow> bool" where
  "inv_A r \<longleftrightarrow>
     (\<forall>pid record. Registrations r pid = Some record \<longrightarrow>
        (\<exists>l. ServiceIndex r (Name (ServiceCard record)) = Some l \<and> count_list l pid = 1))"

definition inv_B :: "RegistryNode \<Rightarrow> bool" where
  "inv_B r \<longleftrightarrow>
     (\<forall>n l pid. ServiceIndex r n = Some l \<and> pid \<in> set l \<longrightarrow>
        (\<exists>record. Registrations r pid = Some record \<and> Name (ServiceCard record) = n))"

text \<open>
  The one path on which handleStream takes a peer from the index and installs nothing: a
  new registration that is accepted, of a peer registered under another name, without
  \<open>provider_info\<close>.
\<close>

definition renames_without_info ::
  "extern \<Rightarrow> peer_id \<Rightarrow> RegistryRequest \<Rightarrow> RegistryNode \<Rightarrow> bool" where
  "renames_without_info x pid req r \<longleftrightarrow>
     Method req = ''register'' \<and> \<not> isHeartbeat (Registrations r pid) req \<and>
     checkStakeValidity x r pid (req_StakeProof req) = None \<and>
     (case req_StakeProof req of None \<Rightarrow> False | Some sp \<Rightarrow> replay_key sp \<notin> seenStakeNonces r) \<and>
     ProviderInfo req = None \<and>
     (case Registrations r pid of
        None \<Rightarrow> False
      | Some e \<Rightarrow> Name (ServiceCard e) \<noteq> Name (Card req))"

text \<open>
  The peers whose addresses \<open>find\<close> collects, in the order it collects them, and what
  the specification asks of \<open>find\<close>: a registered peer is collected once if the
  lowercased name of its card contains the query, and no one else is collected.
\<close>

definition collected_peers ::
  "extern \<Rightarrow> string list \<Rightarrow> string \<Rightarrow> RegistryNode \<Rightarrow> peer_id list" where
  "collected_peers x names query r =
     concat (map (\<lambda>name.
        case ServiceIndex r name of
          None \<Rightarrow> []
        | Some peerIDs \<Rightarrow>
            if strings_Contains (strings_ToLower x name) query
            then filter (\<lambda>pid. Registrations r pid \<noteq> None) peerIDs
            else []) names)"

definition matches_query :: "extern \<Rightarrow> string \<Rightarrow> RegistrationRecord \<Rightarrow> bool" where
  "matches_query x query rcd \<longleftrightarrow>
     strings_Contains (strings_ToLower x (Name (ServiceCard rcd))) query"

text \<open>The outcomes of stake verification, as the specification names them.\<close>

datatype outcome =
  StakeMissing | StakeTooLow | StakerMismatch | PubkeyMissing | SignatureInvalid | OK

fun outcome_of :: "stake_error option \<Rightarrow> outcome" where
  "outcome_of None = OK"
| "outcome_of (Some (ErrStakeRequired m)) = StakeMissing"
| "outcome_of (Some (ErrStakeTooLow a m)) = StakeTooLow"
| "outcome_of (Some (ErrStakerMismatch s t)) = StakerMismatch"
| "outcome_of (Some (ErrMissingPubkey s)) = PubkeyMissing"
| "outcome_of (Some (ErrVerifyFailed e)) = SignatureInvalid"
| "outcome_of (Some ErrSignatureInvalid) = SignatureInvalid"

text \<open>
  The procedure of the specification, in its words: an ordered list of failure
  conditions, of which the first applicable one decides; the signature is checked against
  the digest of the five fields joined by a bar.
\<close>

fun first_applicable :: "(bool \<times> outcome) list \<Rightarrow> outcome" where
  "first_applicable [] = OK"
| "first_applicable ((c, out) # rest) = (if c then out else first_applicable rest)"

definition canonical_payload :: "StakeProof \<Rightarrow> string" where
  "canonical_payload sp =
     strings_Join [TxHash sp, fmt_f 6 (Amount sp), show_int (sint (Nonce sp)),
                   show_int (sint (Timestamp sp)), ChainID sp] ''|''"

definition signature_verifies :: "extern \<Rightarrow> pubkey \<Rightarrow> StakeProof \<Rightarrow> bool" where
  "signature_verifies x pk sp \<longleftrightarrow>
     pk (sha256_Sum256 x (canonical_payload sp)) (Signature sp) = (True, None)"

definition verify_stake_spec ::
  "extern \<Rightarrow> (peer_id \<Rightarrow> pubkey option) \<Rightarrow> gofloat \<Rightarrow> peer_id \<Rightarrow> StakeProof option \<Rightarrow> outcome" where
  "verify_stake_spec x pubkey_of m pid sp_opt =
     (case sp_opt of
        None \<Rightarrow> StakeMissing
      | Some sp \<Rightarrow>
          first_applicable
            [(float_lt (Amount sp) m, StakeTooLow),
             (Staker sp \<noteq> [] \<and> Staker sp \<noteq> peer_String x pid, StakerMismatch),
             (pubkey_of pid = None, PubkeyMissing),
             (case pubkey_of pid of None \<Rightarrow> False | Some pk \<Rightarrow> \<not> signature_verifies x pk sp,
              SignatureInvalid)])"

text \<open>
  \<open>embed\<close> is what both paths apply to their text: lowercase, then simpleTextEmbedding
  with 64 components. The reference it is compared with is \<open>code_point_count\<close>: the
  number of code points of the lowercased text that are congruent to \<open>i\<close> modulo 64.
  \<open>card_text\<close> is the text of a card: its name, its description and, when it has tags,
  its tags joined by spaces, joined by spaces.
\<close>

definition embed :: "extern \<Rightarrow> string \<Rightarrow> nat list" where
  "embed x t = simpleTextEmbedding x (strings_ToLower x t) defaultEmbeddingDim"

definition code_point_count :: "extern \<Rightarrow> string \<Rightarrow> nat \<Rightarrow> nat" where
  "code_point_count x t i =
     length (filter (\<lambda>c. c mod 64 = int i) (range_runes x (strings_ToLower x t)))"

definition card_text :: "ServiceCard \<Rightarrow> string" where
  "card_text c =
     strings_Join ([Name c, Description c] @
                   (if Tags c = [] then [] else [strings_Join (Tags c) '' ''])) '' ''"

text \<open>
  Lock discipline over a sequence of events. \<open>calls_outside_mutex held evs\<close>: no call to
  the durable store or to the vector index in \<open>evs\<close> happens while the state mutex is
  held, where \<open>held\<close> says whether it is held at the start. \<open>mutex_discipline mu st evs\<close>
  is what the handlers do, \<open>mu\<close> and \<open>st\<close> saying whether the state mutex and the
  mutex of the replay set are held at the start: a mutex is taken only while neither is
  held and released only while held, the writes to the store are made under the state
  mutex, the read of the store and the call to the index are made outside it, and both
  are released at the end.
\<close>

fun calls_outside_mutex :: "bool \<Rightarrow> event list \<Rightarrow> bool" where
  "calls_outside_mutex held [] = True"
| "calls_outside_mutex held (MuLock # evs) = calls_outside_mutex True evs"
| "calls_outside_mutex held (MuUnlock # evs) = calls_outside_mutex False evs"
| "calls_outside_mutex held (StakeMuLock # evs) = calls_outside_mutex held evs"
| "calls_outside_mutex held (StakeMuUnlock # evs) = calls_outside_mutex held evs"
| "calls_outside_mutex held (ev # evs) = (\<not> held \<and> calls_outside_mutex held evs)"

fun mutex_discipline :: "bool \<Rightarrow> bool \<Rightarrow> event list \<Rightarrow> bool" where
  "mutex_discipline mu st [] = (\<not> mu \<and> \<not> st)"
| "mutex_discipline mu st (MuLock # evs) = (\<not> mu \<and> \<not> st \<and> mutex_discipline True st evs)"
| "mutex_discipline mu st (MuUnlock # evs) = (mu \<and> mutex_discipline False st evs)"
| "mutex_discipline mu st (StakeMuLock # evs) = (\<not> mu \<and> \<not> st \<and> mutex_discipline mu True evs)"
| "mutex_discipline mu st (StakeMuUnlock # evs) = (st \<and> mutex_discipline mu False evs)"
| "mutex_discipline mu st (CallSaveRegistration pid record # evs) = (mu \<and> mutex_discipline mu st evs)"
| "mutex_discipline mu st (CallDeleteRegistration pid n # evs) = (mu \<and> mutex_discipline mu st evs)"
| "mutex_discipline mu st (CallRestoreAllRegistrations # evs) = (\<not> mu \<and> mutex_discipline mu st evs)"
| "mutex_discipline mu st (CallUpsertService i v # evs) = (\<not> mu \<and> mutex_discipline mu st evs)"

text \<open>
  The records of the store that the restore keeps, in the words of the specification: a
  scanned entry that can be read and decoded, whose \<open>last_seen\<close> is not more than 90
  seconds before \<open>now\<close>, and whose key names a peer.
\<close>

definition survivor ::
  "extern \<Rightarrow> time \<Rightarrow> string \<times> string option \<Rightarrow> (peer_id \<times> RegistrationRecord) option" where
  "survivor x now e =
     (case snd e of
        None \<Rightarrow> None
      | Some data \<Rightarrow>
          (case json_Unmarshal x data of
             None \<Rightarrow> None
           | Some rcd \<Rightarrow>
               if now - LastSeen rcd > 90 * Second then None
               else map_option (\<lambda>pid. (pid, rcd))
                      (peer_Decode x (strings_TrimPrefix (fst e) ''registration:''))))"

subsection \<open>Test doubles and scenario data\<close>

text \<open>
  Stand-ins for the library functions, for evaluating the model on concrete inputs:
  a key that accepts exactly the signature equal to the digest, an identity digest,
  ASCII lowercasing, one rune per byte, and a store whose records are named by their data.
\<close>

definition test_pubkey :: pubkey where
  "test_pubkey digest sig = (sig = digest, None)"

definition ascii_lower :: "char \<Rightarrow> char" where
  "ascii_lower c =
     (case map_of (zip ''ABCDEFGHIJKLMNOPQRSTUVWXYZ'' ''abcdefghijklmnopqrstuvwxyz'') c of
        None \<Rightarrow> c
      | Some l \<Rightarrow> l)"

definition card_of :: "string \<Rightarrow> ServiceCard" where
  "card_of n = \<lparr>Name = n, Description = [], Inputs = [], CostPerOp = Finite 0, Version = [],
               Tags = [], Embedding = []\<rparr>"

definition stake_of :: "string \<Rightarrow> gofloat \<Rightarrow> StakeProof" where
  "stake_of tx a = \<lparr>TxHash = tx, Staker = ''peerA'', Amount = a, Nonce = 1, Timestamp = 0,
                    ChainID = ''c'', Signature = tx @ ''|'' @ fmt_f 6 a @ ''|1|0|c''\<rparr>"

definition addr_of :: "peer_id \<Rightarrow> AddrInfo" where
  "addr_of p = \<lparr>ID = p, Addrs = [''/ip4/10.0.0.1/tcp/4001'']\<rparr>"

definition stored_record :: "time \<Rightarrow> string \<Rightarrow> RegistrationRecord" where
  "stored_record t n =
     \<lparr>LastSeen = t, ServiceCard = card_of n, StakeProof = Some (stake_of ''tx1'' (Finite 10)),
      AddrInfo = addr_of ''peerA''\<rparr>"

definition test_Unmarshal :: "string \<Rightarrow> RegistrationRecord option" where
  "test_Unmarshal data =
     (if data = ''fresh'' then Some (stored_record (70 * Second) ''math'')
      else if data = ''stale'' then Some (stored_record (- 20 * Second) ''old'')
      else None)"

definition test_extern :: extern where
  "test_extern =
     \<lparr>sha256_Sum256 = (\<lambda>s. s), peer_String = (\<lambda>p. p), peer_ShortString = (\<lambda>p. p),
      peer_Decode = Some, strings_ToLower = map ascii_lower,
      range_runes = map (\<lambda>c. int (of_char c)), json_Unmarshal = test_Unmarshal\<rparr>"

definition register_req :: "string \<Rightarrow> string \<Rightarrow> gofloat \<Rightarrow> AddrInfo option \<Rightarrow> RegistryRequest" where
  "register_req n tx a info =
     \<lparr>Method = ''register'', Card = card_of n, Query = [], req_StakeProof = Some (stake_of tx a),
      ProviderInfo = info\<rparr>"

definition find_req :: "string \<Rightarrow> RegistryRequest" where
  "find_req q = \<lparr>Method = ''find'', Card = card_of [], Query = q, req_StakeProof = None,
                ProviderInfo = None\<rparr>"

definition node0 :: RegistryNode where
  "node0 = new_node (\<lambda>p. Some test_pubkey) (Finite 10) False True"

text \<open>
  Scenario data: peer A registers the service \<open>math\<close> at time 0 (\<open>node1\<close> is the state
  after that), registers again under another name and another stake without giving its
  address, and the ticker fires at 100 s.
\<close>

definition first_req :: RegistryRequest where
  "first_req = register_req ''math'' ''tx1'' (Finite 10) (Some (addr_of ''peerA''))"

definition no_info_req :: RegistryRequest where
  "no_info_req = register_req ''math'' ''tx1'' (Finite 10) None"

definition reg_first :: op where
  "reg_first = Stream 0 [] ''peerA'' first_req"

definition rereg_no_info :: op where
  "rereg_no_info = Stream (5 * Second) [] ''peerA'' (register_req ''math2'' ''tx2'' (Finite 10) None)"


definition node1 :: RegistryNode where
  "node1 = node0\<lparr>Registrations := [''peerA'' \<mapsto> stored_record 0 ''math''],
                  ServiceIndex := [''math'' \<mapsto> [''peerA'']],
                  seenStakeNonces := {''tx1|1''}\<rparr>"

text \<open>
  The ticks of a ticker that fires at 9 s, 19 s, ... up to 89 s; its next tick is at 99 s.
\<close>

definition ticks_until_95 :: "op list" where
  "ticks_until_95 =
     map (\<lambda>k. Tick (9 * Second + k * tickerPeriod) [''peerA'']) [0, 1, 2, 3, 4, 5, 6, 7, 8]"

text \<open>
  Scenario S6: the store holds a record last seen 30 s before the restart and one last
  seen 120 s before it; the restart is at 100 s.
\<close>

definition scan_S6 :: redis_scan where
  "scan_S6 = \<lparr>scan_entries = [(''registration:peerA'', Some ''fresh''),
                              (''registration:peerB'', Some ''stale'')],
              scan_err = False\<rparr>"

section \<open>Verification\<close>

subsection \<open>Evaluating the renderings; stake verification\<close>

lemma show_nat_numeral:
  "show_nat (numeral k) =
     (if (numeral k :: nat) < 10 then [digit_char (numeral k)]
      else show_nat (numeral k div 10) @ [digit_char (numeral k mod 10)])"
  by (rule show_nat.simps)

lemma show_nat_0: "show_nat 0 = ''0''"
  by (simp add: show_nat.simps [of 0] digit_char_def)

lemma show_nat_Suc_0: "show_nat (Suc 0) = ''1''"
  by (simp add: show_nat.simps [of "Suc 0"] digit_char_def)

lemma show_nat_1: "show_nat 1 = ''1''"
  using show_nat_Suc_0 by simp

lemma replicate_numeral: "replicate (numeral k) x = x # replicate (pred_numeral k) x"
  by (simp add: numeral_eq_Suc)

lemma floor_rat_divide_numeral: "\<lfloor>numeral a / numeral b :: rat\<rfloor> = numeral a div numeral b"
  by (metis floor_divide_of_int_eq of_int_numeral)

lemmas fmt_eval = show_nat_numeral show_nat_0 show_nat_1 show_nat_Suc_0 replicate_numeral
  floor_rat_divide_numeral
  digit_char_def fixed_digits_def round_scaled_def pad_zeros_def fmt_d_def show_int_def Let_def


lemmas eval_defs = handleStream_def handle_register_def handle_find_def isHeartbeat_def
  checkStakeValidity_def register_req_def find_req_def node0_def new_node_def test_extern_def
  test_pubkey_def stake_of_def card_of_def addr_of_def replay_key_def stake_payload_def
  resp0_def save_events_def delete_events_def addToIndex_def removeFromIndex_def
  index_get_def gcTick_def time_Sub_def Second_def maxDuration_def minDuration_def
  find_providers_def List.map_filter_def fmt_eval

lemma stake_payload_canonical: "stake_payload sp = canonical_payload sp"
  by (simp add: stake_payload_def canonical_payload_def fmt_d_def)

lemma checkStakeValidity_nil: "checkStakeValidity x r pid None = Some (ErrStakeRequired (minStake r))"
  by (simp add: checkStakeValidity_def)

text \<open>
  Claim C3. For every stake proof, peer identity and minimum stake, checkStakeValidity
  ends with the first applicable outcome of the ordered procedure of the specification:
  no proof, StakeMissing; amount below the minimum, StakeTooLow; a non-empty staker other
  than the peer's canonical string, StakerMismatch; no public key for the peer,
  PubkeyMissing; otherwise the signature is verified against the SHA-256 digest of
  \<open>tx_hash|amount|nonce|timestamp|chain_id\<close>, the amount with six decimals, giving
  SignatureInvalid or OK. The message of StakeTooLow renders both amounts with two
  decimals: \<open>5.00\<close> and \<open>10.00\<close> for 5.0 and 10.0.
\<close>

theorem C3_stake_verification:
  "outcome_of (checkStakeValidity x r pid sp_opt) =
     verify_stake_spec x (Host_PubKey r) (minStake r) pid sp_opt
   \<and> (\<forall>sp. sp_opt = Some sp \<and> float_lt (Amount sp) (minStake r) \<longrightarrow>
         map_option err_Error (checkStakeValidity x r pid sp_opt) =
           Some (''stake too low: have '' @ fmt_f 2 (Amount sp) @ '' need '' @ fmt_f 2 (minStake r)))
   \<and> fmt_f 2 (Finite 5) = ''5.00'' \<and> fmt_f 2 (Finite 10) = ''10.00''"
proof (intro conjI)
  show "outcome_of (checkStakeValidity x r pid sp_opt) =
     verify_stake_spec x (Host_PubKey r) (minStake r) pid sp_opt"
  proof (cases sp_opt)
    case None
    then show ?thesis by (simp add: checkStakeValidity_def verify_stake_spec_def)
  next
    case (Some sp)
    show ?thesis
    proof (cases "Host_PubKey r pid")
      case None
      with Some show ?thesis
        by (simp add: checkStakeValidity_def verify_stake_spec_def)
    next
      case (Some pk)
      obtain ok err where res: "pk (sha256_Sum256 x (canonical_payload sp)) (Signature sp) = (ok, err)"
        by (cases "pk (sha256_Sum256 x (canonical_payload sp)) (Signature sp)")
      from \<open>sp_opt = Some sp\<close> Some res show ?thesis
        by (cases err)
           (auto simp add: checkStakeValidity_def verify_stake_spec_def signature_verifies_def
              stake_payload_canonical)
    qed
  qed
next
  show "\<forall>sp. sp_opt = Some sp \<and> float_lt (Amount sp) (minStake r) \<longrightarrow>
         map_option err_Error (checkStakeValidity x r pid sp_opt) =
           Some (''stake too low: have '' @ fmt_f 2 (Amount sp) @ '' need '' @ fmt_f 2 (minStake r))"
    by (simp add: checkStakeValidity_def)
next
  show "fmt_f 2 (Finite 5) = ''5.00''" by (simp add: fmt_eval)
next
  show "fmt_f 2 (Finite 10) = ''10.00''" by (simp add: fmt_eval)
qed

lemma node0_simps:
  "minStake node0 = Finite 10" "Host_PubKey node0 = (\<lambda>p. Some test_pubkey)"
  "Registrations node0 = Map.empty" "ServiceIndex node0 = Map.empty"
  "seenStakeNonces node0 = {}" "qdrant node0 = False" "storage node0 = True"
  by (simp_all add: node0_def new_node_def)

lemma stake_of_simps:
  "TxHash (stake_of tx a) = tx" "Staker (stake_of tx a) = ''peerA''" "Amount (stake_of tx a) = a"
  "Nonce (stake_of tx a) = 1"
  by (simp_all add: stake_of_def)

text \<open>
  C3 at the scenario S3 of the specification: a stake of 5.0 against a minimum of 10.0.
\<close>

theorem C3_stake_verification_witness:
  "float_lt (Finite 5) (Finite 10) \<and>
   map_option err_Error
     (checkStakeValidity test_extern node0 ''peerA'' (Some (stake_of ''tx1'' (Finite 5)))) =
   Some ''stake too low: have 5.00 need 10.00'' \<and>
   outcome_of (checkStakeValidity test_extern node0 ''peerA'' (Some (stake_of ''tx1'' (Finite 5)))) =
   StakeTooLow"
proof -
  note t = C3_stake_verification [of test_extern node0 "''peerA''" "Some (stake_of ''tx1'' (Finite 5))"]
  have lt: "float_lt (Finite 5) (Finite 10)" by simp
  have 1: "outcome_of (checkStakeValidity test_extern node0 ''peerA''
             (Some (stake_of ''tx1'' (Finite 5)))) = StakeTooLow"
    using t [THEN conjunct1] by (simp add: verify_stake_spec_def node0_simps stake_of_simps)
  have 2: "map_option err_Error
     (checkStakeValidity test_extern node0 ''peerA'' (Some (stake_of ''tx1'' (Finite 5)))) =
     Some (''stake too low: have '' @ fmt_f 2 (Finite 5) @ '' need '' @ fmt_f 2 (Finite 10))"
    using t [THEN conjunct2, THEN conjunct1] lt by (simp add: node0_simps stake_of_simps)
  have 3: "fmt_f 2 (Finite 5) = ''5.00''" "fmt_f 2 (Finite 10) = ''10.00''"
    using t by blast+
  show ?thesis using lt 1 2 unfolding 3 by simp
qed

subsection \<open>Heartbeats; the index after a registration without an address\<close>


text \<open>
  Claim C4. A register request from a peer that has a record, carrying a stake proof with
  the transaction hash of the stored one, is a heartbeat: the stored record gets
  \<open>LastSeen = now\<close> and, if and only if the request has a \<open>provider_info\<close>, that
  address; the response is \<open>{success: true}\<close>; the card and the stake proof of the record,
  the index and the replay set stay as they were, whatever card the request carries. The
  updated record is what is sent to the durable store.
\<close>

theorem C4_heartbeat:
  assumes "Method req = ''register''"
    and "Registrations r pid = Some e"
    and "StakeProof e = Some ep"
    and "req_StakeProof req = Some rp"
    and "TxHash rp = TxHash ep"
  shows "\<exists>e'. e' = e\<lparr>LastSeen := now,
                       AddrInfo := (case ProviderInfo req of None \<Rightarrow> AddrInfo e | Some info \<Rightarrow> info)\<rparr>
           \<and> handleStream x now names pid req r =
               (\<lparr>Success = True, Providers = [], Error = []\<rparr>,
                [MuLock, MuUnlock, MuLock] @ save_events r pid e' @ [MuUnlock],
                r\<lparr>Registrations := (Registrations r)(pid \<mapsto> e')\<rparr>)
           \<and> ServiceCard e' = ServiceCard e \<and> StakeProof e' = StakeProof e"
  using assms
  by (cases "ProviderInfo req")
     (simp_all add: handleStream_def handle_register_def isHeartbeat_def resp0_def Let_def)

lemma node1_reachable: "run test_extern [reg_first] node0 = node1"
  by (simp add: eval_defs reg_first_def first_req_def node1_def stored_record_def)

lemma scenario_S1_register_then_find:
  "fst (handleStream test_extern (1 * Second) [''math''] ''peerB'' (find_req ''MAT'')
          (run test_extern [reg_first] node0)) =
     \<lparr>Success = True, Providers = [addr_of ''peerA''], Error = []\<rparr>"
  unfolding node1_reachable
  by (simp add: eval_defs node1_def stored_record_def ascii_lower_def)

text \<open>
  C4 at a concrete heartbeat: peer A, registered for \<open>math\<close>, sends its stake again with
  a card named \<open>math2\<close> and no address.
\<close>

theorem C4_heartbeat_witness:
  "Registrations node1 ''peerA'' = Some (stored_record 0 ''math'') \<and>
   handleStream test_extern (30 * Second) [] ''peerA''
     (register_req ''math2'' ''tx1'' (Finite 10) None) node1 =
     (\<lparr>Success = True, Providers = [], Error = []\<rparr>,
      [MuLock, MuUnlock, MuLock,
       CallSaveRegistration ''peerA'' (stored_record (30 * Second) ''math''), MuUnlock],
      node1\<lparr>Registrations := [''peerA'' \<mapsto> stored_record (30 * Second) ''math'']\<rparr>)"
proof -
  have a: "Method (register_req ''math2'' ''tx1'' (Finite 10) None) = ''register''"
    and b: "Registrations node1 ''peerA'' = Some (stored_record 0 ''math'')"
    and c: "StakeProof (stored_record 0 ''math'') = Some (stake_of ''tx1'' (Finite 10))"
    and d: "req_StakeProof (register_req ''math2'' ''tx1'' (Finite 10) None) = Some (stake_of ''tx1'' (Finite 10))"
    by (simp_all add: register_req_def node1_def stored_record_def)
  from C4_heartbeat [OF a b c d refl, where x = test_extern and now = "30 * Second" and names = "[]"] b
  show ?thesis
    by (simp add: register_req_def node1_def stored_record_def save_events_def node0_simps)
qed

text \<open>
  Claim C1 says that Invariants A and B hold after every operation of every run, also when
  a registered peer registers again under another service name without \<open>provider_info\<close>.
  On that path handleStream removes the peer from the index under its old name and then
  installs nothing: the record stays, with the old name, and is listed nowhere. The run
  below is accepted (\<open>success: true\<close>) and ends in a state where Invariant A fails.
\<close>

theorem C1_invariant_A_broken:
  "inv_A (run test_extern [reg_first] node0) \<and>
   Success (fst (handleStream test_extern (5 * Second) [] ''peerA''
                  (register_req ''math2'' ''tx2'' (Finite 10) None) (run test_extern [reg_first] node0))) \<and>
   \<not> inv_A (run test_extern [reg_first, rereg_no_info] node0)"
proof (intro conjI)
  show "inv_A (run test_extern [reg_first] node0)"
    unfolding node1_reachable by (simp add: inv_A_def node1_def stored_record_def card_of_def)
  show "Success (fst (handleStream test_extern (5 * Second) [] ''peerA''
                  (register_req ''math2'' ''tx2'' (Finite 10) None) (run test_extern [reg_first] node0)))"
    unfolding node1_reachable by (simp add: eval_defs node1_def stored_record_def)
  let ?S = "run test_extern [reg_first, rereg_no_info] node0"
  have reg: "Registrations ?S ''peerA'' = Some (stored_record 0 ''math'')"
    and idx: "ServiceIndex ?S ''math'' = Some []"
    by (simp_all add: eval_defs reg_first_def first_req_def rereg_no_info_def stored_record_def)
  show "\<not> inv_A ?S"
  proof
    assume "inv_A ?S"
    with reg obtain l
      where "ServiceIndex ?S (Name (ServiceCard (stored_record 0 ''math''))) = Some l"
        and "count_list l ''peerA'' = 1"
      unfolding inv_A_def by blast
    with idx show False by (simp add: stored_record_def card_of_def)
  qed
qed

text \<open>
  The record and the index entry at which Invariant A fails after the run of C1.
\<close>

theorem C1_invariant_A_broken_witness:
  "Registrations (run test_extern [reg_first, rereg_no_info] node0) ''peerA'' =
     Some (stored_record 0 ''math'') \<and>
   ServiceIndex (run test_extern [reg_first, rereg_no_info] node0)
     (Name (ServiceCard (stored_record 0 ''math''))) = Some [] \<and>
   \<not> inv_A (run test_extern [reg_first, rereg_no_info] node0)"
  using C1_invariant_A_broken
  by (simp add: eval_defs reg_first_def first_req_def rereg_no_info_def stored_record_def)

text \<open>
  Claim C6 says that \<open>find\<close> returns the address of every registered record whose
  lowercased name contains the lowercased query. \<open>find\<close> walks the index, so in the
  state reached by the run of C1 (peer A registered for \<open>math\<close>, listed nowhere) the
  empty query, which matches every name, returns no provider.
\<close>

theorem C6_find_misses_registered_peer:
  "Registrations (run test_extern [reg_first, rereg_no_info] node0) ''peerA'' = Some (stored_record 0 ''math'') \<and>
   strings_Contains (strings_ToLower test_extern (Name (ServiceCard (stored_record 0 ''math''))))
     (strings_ToLower test_extern []) \<and>
   dom (ServiceIndex (run test_extern [reg_first, rereg_no_info] node0)) = set [''math''] \<and>
   fst (handleStream test_extern (6 * Second) [''math''] ''peerB'' (find_req [])
          (run test_extern [reg_first, rereg_no_info] node0)) =
     \<lparr>Success = True, Providers = [], Error = []\<rparr>"
  by (simp add: eval_defs reg_first_def first_req_def rereg_no_info_def stored_record_def dom_def)

subsection \<open>The replay set over a run\<close>

lemma addToIndex_frame:
  "minStake (addToIndex p n r) = minStake r" "Host_PubKey (addToIndex p n r) = Host_PubKey r"
  "seenStakeNonces (addToIndex p n r) = seenStakeNonces r"
  "Registrations (addToIndex p n r) = Registrations r"
  "storage (addToIndex p n r) = storage r" "qdrant (addToIndex p n r) = qdrant r"
  by (simp_all add: addToIndex_def Let_def)

lemma removeFromIndex_frame:
  "minStake (removeFromIndex p n r) = minStake r" "Host_PubKey (removeFromIndex p n r) = Host_PubKey r"
  "seenStakeNonces (removeFromIndex p n r) = seenStakeNonces r"
  "Registrations (removeFromIndex p n r) = Registrations r"
  "storage (removeFromIndex p n r) = storage r" "qdrant (removeFromIndex p n r) = qdrant r"
  by (simp_all add: removeFromIndex_def Let_def)

lemma handle_register_frame:
  "minStake (snd (snd (handle_register x now pid req r))) = minStake r \<and>
   Host_PubKey (snd (snd (handle_register x now pid req r))) = Host_PubKey r \<and>
   seenStakeNonces r \<subseteq> seenStakeNonces (snd (snd (handle_register x now pid req r)))"
  by (auto simp add: handle_register_def Let_def addToIndex_frame removeFromIndex_frame
        split: option.splits prod.splits)

lemma gc_range_frame:
  "minStake (snd (gc_range now pids r)) = minStake r \<and>
   Host_PubKey (snd (gc_range now pids r)) = Host_PubKey r \<and>
   seenStakeNonces (snd (gc_range now pids r)) = seenStakeNonces r"
proof (induction pids arbitrary: r)
  case Nil
  show ?case by simp
next
  case (Cons pid pids)
  show ?case
  proof (cases "Registrations r pid")
    case None
    then show ?thesis using Cons.IH [of r] by simp
  next
    case (Some rcd)
    show ?thesis
    proof (cases "time_Sub now (LastSeen rcd) > 90 * Second")
      case True
      let ?r' = "removeFromIndex pid (Name (ServiceCard rcd))
                   (r\<lparr>Registrations := (Registrations r)(pid := None)\<rparr>)"
      from Some True have "snd (gc_range now (pid # pids) r) = snd (gc_range now pids ?r')"
        by (simp add: Let_def split: prod.splits)
      then show ?thesis using Cons.IH [of ?r'] by (simp add: removeFromIndex_frame)
    next
      case False
      with Some show ?thesis using Cons.IH [of r] by simp
    qed
  qed
qed

lemma snd_gcTick: "snd (gcTick now pids r) = snd (gc_range now pids r)"
  by (simp add: gcTick_def split: prod.splits)

lemma step_frame:
  "minStake (step x o1 r) = minStake r \<and> Host_PubKey (step x o1 r) = Host_PubKey r \<and>
   seenStakeNonces r \<subseteq> seenStakeNonces (step x o1 r)"
proof (cases o1)
  case (Stream now names pid req)
  then show ?thesis
    using handle_register_frame [of x now pid req r]
    by (simp add: handleStream_def handle_find_def Let_def)
next
  case (Tick now pids)
  then show ?thesis
    using gc_range_frame [of now pids r]
    by (simp add: snd_gcTick)
qed

lemma run_frame:
  "minStake (run x ops r) = minStake r \<and> Host_PubKey (run x ops r) = Host_PubKey r \<and>
   seenStakeNonces r \<subseteq> seenStakeNonces (run x ops r)"
proof (induction ops arbitrary: r)
  case Nil
  show ?case by simp
next
  case (Cons o1 ops)
  from Cons.IH [of "step x o1 r"] step_frame [of x o1 r] show ?case
    by auto
qed

lemma checkStakeValidity_accepts:
  assumes "\<not> float_lt (Amount sp) (minStake r)"
    and "Staker sp = [] \<or> Staker sp = peer_String x pid"
    and "Host_PubKey r pid = Some pk"
    and "pk (sha256_Sum256 x (stake_payload sp)) (Signature sp) = (True, None)"
  shows "checkStakeValidity x r pid (Some sp) = None"
  using assms by (auto simp add: checkStakeValidity_def)

lemma checkStakeValidity_frame:
  assumes "minStake r' = minStake r" and "Host_PubKey r' = Host_PubKey r"
  shows "checkStakeValidity x r' pid p = checkStakeValidity x r pid p"
  using assms by (simp add: checkStakeValidity_def split: option.splits)


lemma replay_key_eq: "replay_key sp = TxHash sp @ ''|'' @ show_int (sint (Nonce sp))"
  by (simp add: replay_key_def fmt_d_def)

lemma handle_register_replayed:
  assumes "req_StakeProof req = Some sp"
    and "checkStakeValidity x r pid (Some sp) = None"
    and "\<not> isHeartbeat (Registrations r pid) req"
    and "replay_key sp \<in> seenStakeNonces r"
  shows "handle_register x now pid req r =
           (\<lparr>Success = False, Providers = [],
             Error = ''stake proof already used (replay detected)''\<rparr>,
            [MuLock, MuUnlock, StakeMuLock, StakeMuUnlock], r)"
  using assms by (simp add: handle_register_def resp0_def)





lemma test_stake_accepted:
  "\<not> float_lt (Amount (stake_of tx (Finite 10))) (minStake node0)"
  "Staker (stake_of tx (Finite 10)) = [] \<or>
   Staker (stake_of tx (Finite 10)) = peer_String test_extern ''peerA''"
  "Host_PubKey node0 ''peerA'' = Some test_pubkey"
  "test_pubkey (sha256_Sum256 test_extern (stake_payload (stake_of tx (Finite 10))))
     (Signature (stake_of tx (Finite 10))) = (True, None)"
  by (simp_all add: node0_simps stake_of_def test_extern_def test_pubkey_def stake_payload_def
        fmt_eval)

lemma test_stake_valid:
  "checkStakeValidity test_extern node0 ''peerA'' (Some (stake_of tx (Finite 10))) = None"
  using test_stake_accepted by (rule checkStakeValidity_accepts)

lemma replay_key_test: "replay_key (stake_of tx a) = tx @ ''|1''"
  by (simp add: replay_key_def stake_of_def fmt_eval)




text \<open>
  Claim C9. A new registration of an unregistered peer that passes the stake check
  (\<open>checkStakeValidity\<close> returns no error, whatever made the proof acceptable) and the
  replay check but has no \<open>provider_info\<close> is answered \<open>{success: true}\<close>, installs no
  record and leaves the index alone: the state changes in the replay set only, which
  now holds the key \<open>tx_hash|nonce\<close>. Whatever the registry does next, the key stays,
  and as long as the peer is still unregistered, its register request with the same proof
  and with a \<open>provider_info\<close> is rejected as a replay, and nothing is installed.
\<close>

theorem C9_stake_consumed_without_record:
  assumes "Method req = ''register''" and "req_StakeProof req = Some sp"
    and "ProviderInfo req = None"
    and "checkStakeValidity x r pid (Some sp) = None"
    and "Registrations r pid = None"
    and "TxHash sp @ ''|'' @ show_int (sint (Nonce sp)) \<notin> seenStakeNonces r"
    and "r1 = snd (snd (handleStream x now names pid req r))"
    and "r2 = run x ops r1"
    and "Registrations r2 pid = None"
    and "Method req2 = ''register''" and "req_StakeProof req2 = Some sp"
    and "ProviderInfo req2 = Some info"
  shows "handleStream x now names pid req r =
           (\<lparr>Success = True, Providers = [], Error = []\<rparr>,
            [MuLock, MuUnlock, StakeMuLock, StakeMuUnlock, MuLock, MuUnlock] @
            (if qdrant r \<and> length (buildServiceEmbedding x (Card req)) > 0
             then [CallUpsertService (peer_String x pid @ '':'' @ Name (Card req))
                     (buildServiceEmbedding x (Card req))]
             else []),
            r\<lparr>seenStakeNonces :=
                 insert (TxHash sp @ ''|'' @ show_int (sint (Nonce sp))) (seenStakeNonces r)\<rparr>)
       \<and> Registrations r1 = Registrations r \<and> ServiceIndex r1 = ServiceIndex r
       \<and> TxHash sp @ ''|'' @ show_int (sint (Nonce sp)) \<in> seenStakeNonces r1
       \<and> TxHash sp @ ''|'' @ show_int (sint (Nonce sp)) \<in> seenStakeNonces r2
       \<and> handleStream x now2 names2 pid req2 r2 =
            (\<lparr>Success = False, Providers = [],
              Error = ''stake proof already used (replay detected)''\<rparr>,
             [MuLock, MuUnlock, StakeMuLock, StakeMuUnlock], r2)"
proof -
  note valid = assms(4)
  have h1: "handleStream x now names pid req r = handle_register x now pid req r"
    using assms(1) by (simp add: handleStream_def)
  have h2: "handleStream x now2 names2 pid req2 r2 = handle_register x now2 pid req2 r2"
    using assms(10) by (simp add: handleStream_def)
  have nh: "\<not> isHeartbeat (Registrations r pid) req"
    using assms(5) by (simp add: isHeartbeat_def)
  have nh2: "\<not> isHeartbeat (Registrations r2 pid) req2"
    using assms(9) by (simp add: isHeartbeat_def)
  have fresh: "replay_key sp \<notin> seenStakeNonces r"
    using assms(6) by (simp add: replay_key_eq)
  have first: "handle_register x now pid req r =
           (\<lparr>Success = True, Providers = [], Error = []\<rparr>,
            [MuLock, MuUnlock, StakeMuLock, StakeMuUnlock, MuLock, MuUnlock] @
            (if qdrant r \<and> length (buildServiceEmbedding x (Card req)) > 0
             then [CallUpsertService (peer_String x pid @ '':'' @ Name (Card req))
                     (buildServiceEmbedding x (Card req))]
             else []),
            r\<lparr>seenStakeNonces := insert (replay_key sp) (seenStakeNonces r)\<rparr>)"
    using assms(2,3,5) valid nh fresh by (simp add: handle_register_def Let_def resp0_def)
  have r1_eq: "r1 = r\<lparr>seenStakeNonces := insert (replay_key sp) (seenStakeNonces r)\<rparr>"
    using first assms(7) h1 by simp
  have fr2: "minStake r2 = minStake r" "Host_PubKey r2 = Host_PubKey r"
    and seen2: "replay_key sp \<in> seenStakeNonces r2"
    using run_frame [of x ops r1] assms(8) r1_eq by auto
  have valid2: "checkStakeValidity x r2 pid (Some sp) = None"
    using valid checkStakeValidity_frame [OF fr2] by simp
  show ?thesis
    using first h1 r1_eq seen2 handle_register_replayed [OF assms(11) valid2 nh2 seen2] h2
    by (simp add: replay_key_eq)
qed

text \<open>
  C9 at concrete inputs: peer A sends its stake without an address, then with one; peer B
  does the same with a proof whose staker is empty.
\<close>

theorem C9_stake_consumed_without_record_witness:
  "Registrations node0 ''peerA'' = None \<and> ProviderInfo no_info_req = None \<and>
   checkStakeValidity test_extern node0 ''peerA'' (Some (stake_of ''tx1'' (Finite 10))) = None \<and>
   handleStream test_extern 0 [] ''peerA'' no_info_req node0 =
     (\<lparr>Success = True, Providers = [], Error = []\<rparr>,
      [MuLock, MuUnlock, StakeMuLock, StakeMuUnlock, MuLock, MuUnlock],
      node0\<lparr>seenStakeNonces := {''tx1|1''}\<rparr>) \<and>
   handleStream test_extern (5 * Second) [] ''peerA'' first_req (node0\<lparr>seenStakeNonces := {''tx1|1''}\<rparr>) =
     (\<lparr>Success = False, Providers = [], Error = ''stake proof already used (replay detected)''\<rparr>,
      [MuLock, MuUnlock, StakeMuLock, StakeMuUnlock], node0\<lparr>seenStakeNonces := {''tx1|1''}\<rparr>) \<and>
   Staker ((stake_of ''tx3'' (Finite 10))\<lparr>Staker := []\<rparr>) = [] \<and>
   checkStakeValidity test_extern node0 ''peerB''
     (Some ((stake_of ''tx3'' (Finite 10))\<lparr>Staker := []\<rparr>)) = None \<and>
   handleStream test_extern 0 [] ''peerB''
       (no_info_req\<lparr>req_StakeProof := Some ((stake_of ''tx3'' (Finite 10))\<lparr>Staker := []\<rparr>)\<rparr>) node0 =
     (\<lparr>Success = True, Providers = [], Error = []\<rparr>,
      [MuLock, MuUnlock, StakeMuLock, StakeMuUnlock, MuLock, MuUnlock],
      node0\<lparr>seenStakeNonces := {''tx3|1''}\<rparr>) \<and>
   handleStream test_extern (5 * Second) [] ''peerB''
       (first_req\<lparr>req_StakeProof := Some ((stake_of ''tx3'' (Finite 10))\<lparr>Staker := []\<rparr>)\<rparr>)
       (node0\<lparr>seenStakeNonces := {''tx3|1''}\<rparr>) =
     (\<lparr>Success = False, Providers = [], Error = ''stake proof already used (replay detected)''\<rparr>,
      [MuLock, MuUnlock, StakeMuLock, StakeMuUnlock], node0\<lparr>seenStakeNonces := {''tx3|1''}\<rparr>)"
proof -
  let ?sp = "stake_of ''tx1'' (Finite 10)"
  let ?s = "node0\<lparr>seenStakeNonces := {''tx1|1''}\<rparr>"
  let ?spB = "(stake_of ''tx3'' (Finite 10))\<lparr>Staker := []\<rparr>"
  let ?req1B = "no_info_req\<lparr>req_StakeProof := Some ?spB\<rparr>"
  let ?req2B = "first_req\<lparr>req_StakeProof := Some ?spB\<rparr>"
  let ?sB = "node0\<lparr>seenStakeNonces := {''tx3|1''}\<rparr>"
  have m: "Method no_info_req = ''register''"
    and sp: "req_StakeProof no_info_req = Some ?sp"
    and ni: "ProviderInfo no_info_req = None"
    and m2: "Method first_req = ''register''"
    and sp2: "req_StakeProof first_req = Some ?sp"
    and i2: "ProviderInfo first_req = Some (addr_of ''peerA'')"
    and mB: "Method ?req1B = ''register''"
    and spB: "req_StakeProof ?req1B = Some ?spB"
    and niB: "ProviderInfo ?req1B = None"
    and m2B: "Method ?req2B = ''register''"
    and sp2B: "req_StakeProof ?req2B = Some ?spB"
    and i2B: "ProviderInfo ?req2B = Some (addr_of ''peerA'')"
    by (simp_all add: first_req_def no_info_req_def register_req_def)
  have unreg: "Registrations node0 ''peerA'' = None" and unregB: "Registrations node0 ''peerB'' = None"
    by (simp_all add: node0_simps)
  have key: "TxHash ?sp @ ''|'' @ show_int (sint (Nonce ?sp)) = ''tx1|1''"
    using replay_key_test [of "''tx1''" "Finite 10"] by (simp add: replay_key_eq)
  have keyB: "TxHash ?spB @ ''|'' @ show_int (sint (Nonce ?spB)) = ''tx3|1''"
    using replay_key_test [of "''tx3''" "Finite 10"] by (simp add: replay_key_eq stake_of_def)
  have fresh: "TxHash ?sp @ ''|'' @ show_int (sint (Nonce ?sp)) \<notin> seenStakeNonces node0"
    unfolding key by (simp add: node0_simps)
  have freshB: "TxHash ?spB @ ''|'' @ show_int (sint (Nonce ?spB)) \<notin> seenStakeNonces node0"
    unfolding keyB by (simp add: node0_simps)
  have emptyB: "Staker ?spB = []"
    by simp
  have validB: "checkStakeValidity test_extern node0 ''peerB'' (Some ?spB) = None"
    by (rule checkStakeValidity_accepts [where pk = test_pubkey])
       (simp_all add: node0_simps stake_of_def test_extern_def test_pubkey_def stake_payload_def
          fmt_eval)
  note tA = C9_stake_consumed_without_record [OF m sp ni test_stake_valid unreg fresh refl _ _ m2 sp2 i2,
      where ops = "[]" and ?r2.0 = ?s and ?now = 0 and ?names = "[]"
        and ?now2.0 = "5 * Second" and ?names2.0 = "[]"]
  note tB = C9_stake_consumed_without_record [OF mB spB niB validB unregB freshB refl _ _ m2B sp2B i2B,
      where ops = "[]" and ?r2.0 = ?sB and ?now = 0 and ?names = "[]"
        and ?now2.0 = "5 * Second" and ?names2.0 = "[]"]
  have qd: "\<not> qdrant node0"
    by (simp add: node0_simps)
  have firstA: "handleStream test_extern 0 [] ''peerA'' no_info_req node0 =
     (\<lparr>Success = True, Providers = [], Error = []\<rparr>,
      [MuLock, MuUnlock, StakeMuLock, StakeMuUnlock, MuLock, MuUnlock], ?s)"
    by (simp add: eval_defs no_info_req_def)
  have firstB: "handleStream test_extern 0 [] ''peerB'' ?req1B node0 =
     (\<lparr>Success = True, Providers = [], Error = []\<rparr>,
      [MuLock, MuUnlock, StakeMuLock, StakeMuUnlock, MuLock, MuUnlock], ?sB)"
    by (simp add: eval_defs no_info_req_def)
  have stA: "?s = run test_extern [] (snd (snd (handleStream test_extern 0 [] ''peerA'' no_info_req node0)))"
    by (simp add: firstA)
  have stB: "?sB = run test_extern [] (snd (snd (handleStream test_extern 0 [] ''peerB'' ?req1B node0)))"
    by (simp add: firstB)
  have goneA: "Registrations ?s ''peerA'' = None" and goneB: "Registrations ?sB ''peerB'' = None"
    by (simp_all add: node0_simps)
  have repA: "handleStream test_extern (5 * Second) [] ''peerA'' first_req ?s =
     (\<lparr>Success = False, Providers = [], Error = ''stake proof already used (replay detected)''\<rparr>,
      [MuLock, MuUnlock, StakeMuLock, StakeMuUnlock], ?s)"
    using tA [OF stA goneA] by (elim conjE)
  have repB: "handleStream test_extern (5 * Second) [] ''peerB'' ?req2B ?sB =
     (\<lparr>Success = False, Providers = [], Error = ''stake proof already used (replay detected)''\<rparr>,
      [MuLock, MuUnlock, StakeMuLock, StakeMuUnlock], ?sB)"
    using tB [OF stB goneB] by (elim conjE)
  show ?thesis
    using unreg ni test_stake_valid [of "''tx1''"] firstA repA emptyB validB firstB repB
    by (intro conjI)
qed

subsection \<open>The embedding\<close>

lemma bit_length_numeral:
  "bit_length (numeral k) = (if (numeral k :: nat) = 0 then 0 else Suc (bit_length (numeral k div 2)))"
  by (rule bit_length.simps)

lemma bit_length_0: "bit_length 0 = 0"
  by (simp add: bit_length.simps [of 0])

lemma bit_length_Suc_0: "bit_length (Suc 0) = Suc 0"
  by (simp add: bit_length.simps [of "Suc 0"] bit_length_0)

lemma bit_length_1: "bit_length 1 = 1"
  using bit_length_Suc_0 by simp

lemma f32_round_exact: "n \<le> 2 ^ 24 \<Longrightarrow> f32_round n = n"
proof (cases "n < 2 ^ 24")
  case True
  then show ?thesis by (simp add: f32_round_def)
next
  case False
  assume "n \<le> 2 ^ 24"
  with False have n: "n = 16777216" by simp
  show ?thesis unfolding n
    by (simp add: f32_round_def bit_length_numeral bit_length_0 bit_length_1 bit_length_Suc_0 Let_def)
qed

lemma f32_round_tie: "f32_round 16777217 = 16777216"
  by (simp add: f32_round_def bit_length_numeral bit_length_0 bit_length_1 bit_length_Suc_0 Let_def)

lemma f32_add_one_capped: "f32_add_one (min k (2 ^ 24)) = min (Suc k) (2 ^ 24)"
proof (cases "k < 2 ^ 24")
  case True
  then have "min k (2 ^ 24) = k" "min (Suc k) (2 ^ 24) = Suc k" "Suc k \<le> 2 ^ 24"
    by simp_all
  then show ?thesis using f32_round_exact [of "Suc k"] by (simp add: f32_add_one_def)
next
  case False
  then have "min k (2 ^ 24) = (16777216::nat)" "min (Suc k) (2 ^ 24) = (16777216::nat)"
    by simp_all
  then show ?thesis using f32_round_tie by (simp add: f32_add_one_def)
qed

lemma go_rem_index:
  assumes "0 < dm"
  shows "(if r smod dm < 0 then r smod dm + dm else r smod dm) = r mod (dm::int)"
proof -
  have b: "0 \<le> r mod dm" "r mod dm < dm" using assms by simp_all
  show ?thesis
  proof (cases "sgn r \<noteq> sgn dm \<and> \<not> dm dvd r")
    case True
    then have "r smod dm = r mod dm - dm"
      by (simp add: signed_modulo_int_eq_modulo_int)
    with b show ?thesis by simp
  next
    case False
    then have "r smod dm = r mod dm"
      by (auto simp add: signed_modulo_int_eq_modulo_int)
    with b show ?thesis by simp
  qed
qed

lemma embed_step_mod:
  assumes "0 < dm"
  shows "embed_step dm r vec = vec[nat (r mod dm) := f32_add_one (vec ! nat (r mod dm))]"
  using go_rem_index [OF assms, of r] by (simp add: embed_step_def Let_def)

lemma fold_embed_step:
  assumes "length vec = 64"
  shows "length (fold (embed_step 64) rs vec) = 64 \<and>
         (\<forall>i<64. fold (embed_step 64) rs vec ! i =
            (f32_add_one ^^ length (filter (\<lambda>c. c mod 64 = int i) rs)) (vec ! i))"
  using assms
proof (induction rs arbitrary: vec)
  case Nil
  then show ?case by simp
next
  case (Cons r rs)
  let ?j = "nat (r mod 64)"
  let ?vec = "vec[?j := f32_add_one (vec ! ?j)]"
  have j: "?j < 64" by simp
  have st: "embed_step 64 r vec = ?vec" by (simp add: embed_step_mod)
  have len: "length ?vec = 64" using Cons.prems by simp
  note ih = Cons.IH [OF len]
  show ?case
  proof (intro conjI allI impI)
    show "length (fold (embed_step 64) (r # rs) vec) = 64"
      using ih st by simp
  next
    fix i :: nat
    assume i: "i < 64"
    have eq: "(r mod 64 = int i) = (i = ?j)" using i by auto
    show "fold (embed_step 64) (r # rs) vec ! i =
            (f32_add_one ^^ length (filter (\<lambda>c. c mod 64 = int i) (r # rs))) (vec ! i)"
    proof (cases "i = ?j")
      case True
      then have "?vec ! i = f32_add_one (vec ! i)" using Cons.prems i by simp
      then show ?thesis using ih i st True eq by (simp add: funpow_swap1)
    next
      case False
      then have "?vec ! i = vec ! i" by simp
      then show ?thesis using ih i st False eq by simp
    qed
  qed
qed

lemma funpow_f32_add_one: "(f32_add_one ^^ n) 0 = min n (2 ^ 24)"
proof (induction n)
  case 0
  show ?case by simp
next
  case (Suc n)
  then show ?case using f32_add_one_capped [of n] by simp
qed

lemma simpleTextEmbedding_components:
  "length (simpleTextEmbedding x text defaultEmbeddingDim) = 64 \<and>
   (\<forall>i<64. simpleTextEmbedding x text defaultEmbeddingDim ! i =
      min (length (filter (\<lambda>c. c mod 64 = int i) (range_runes x text))) (2 ^ 24))"
  using fold_embed_step [of "replicate 64 0" "range_runes x text"]
  by (simp add: simpleTextEmbedding_def defaultEmbeddingDim_def funpow_f32_add_one)

lemma ascii_lower_a: "ascii_lower (CHR ''a'') = CHR ''a''"
  by (simp add: ascii_lower_def)

lemma code_point_count_long:
  "code_point_count test_extern (replicate n (CHR ''a'')) 33 = n"
  by (simp add: code_point_count_def test_extern_def ascii_lower_a)

text \<open>
  Claim C8, as amended. \<open>embed t\<close> has 64 components, and component \<open>i\<close> is the number
  of code points \<open>c\<close> of the lowercased text with \<open>c mod 64 = i\<close>, capped at
  \<open>2 ^ 24 = 16777216\<close>, where a \<open>float32\<close> stops growing by steps of one; below the
  cap it is that number. The registration path embeds the card text (name, description
  and space-joined tags) and the query path embeds the query with the same function, so
  equal texts give equal vectors.
\<close>

theorem C8_embedding:
  "length (embed x t) = 64
   \<and> (\<forall>i<64. embed x t ! i = min (code_point_count x t i) (2 ^ 24))
   \<and> (\<forall>i<64. code_point_count x t i \<le> 2 ^ 24 \<longrightarrow> embed x t ! i = code_point_count x t i)
   \<and> buildServiceEmbedding x c = embed x (card_text c)
   \<and> semantic_query_vector x q = embed x q"
proof (intro conjI)
  note comps = simpleTextEmbedding_components [of x "strings_ToLower x t"]
  show "length (embed x t) = 64"
    using comps by (simp add: embed_def)
  show m: "\<forall>i<64. embed x t ! i = min (code_point_count x t i) (2 ^ 24)"
    using comps by (simp add: embed_def code_point_count_def)
  show "\<forall>i<64. code_point_count x t i \<le> 2 ^ 24 \<longrightarrow> embed x t ! i = code_point_count x t i"
    using m by simp
  show "buildServiceEmbedding x c = embed x (card_text c)"
    by (simp add: buildServiceEmbedding_def embed_def card_text_def Let_def)
  show "semantic_query_vector x q = embed x q"
    by (simp add: semantic_query_vector_def embed_def)
qed

text \<open>
  C8 at the text \<open>Ab\<close>: one code point each in the classes of \<open>a\<close> (33) and
  \<open>b\<close> (34), none in class 35.
\<close>

theorem C8_embedding_witness:
  "(33::nat) < 64 \<and> code_point_count test_extern ''Ab'' 33 = 1 \<and>
   code_point_count test_extern ''Ab'' 33 \<le> 2 ^ 24 \<and>
   embed test_extern ''Ab'' ! 33 = 1 \<and> embed test_extern ''Ab'' ! 34 = 1 \<and>
   embed test_extern ''Ab'' ! 35 = 0"
proof -
  have c: "code_point_count test_extern ''Ab'' 33 = 1"
    "code_point_count test_extern ''Ab'' 34 = 1" "code_point_count test_extern ''Ab'' 35 = 0"
    by (simp_all add: code_point_count_def test_extern_def ascii_lower_def)
  from C8_embedding [of test_extern "''Ab''"]
  have "\<forall>i<64. embed test_extern ''Ab'' ! i = min (code_point_count test_extern ''Ab'' i) (2 ^ 24)"
    by blast
  then have "embed test_extern ''Ab'' ! 33 = min (code_point_count test_extern ''Ab'' 33) (2 ^ 24)"
    "embed test_extern ''Ab'' ! 34 = min (code_point_count test_extern ''Ab'' 34) (2 ^ 24)"
    "embed test_extern ''Ab'' ! 35 = min (code_point_count test_extern ''Ab'' 35) (2 ^ 24)"
    by simp_all
  then show ?thesis unfolding c by simp
qed

text \<open>
  Claim C8 as stated makes every component the number of code points of its class. A text
  of 16777217 letters \<open>a\<close> has that many code points in class 33, and component 33 of
  its embedding is 16777216: adding 1.0 to the \<open>float32\<close> 16777216.0 gives 16777216.0.
\<close>

theorem C8_long_text_counterexample:
  "code_point_count test_extern (replicate 16777217 (CHR ''a'')) 33 = 16777217 \<and>
   embed test_extern (replicate 16777217 (CHR ''a'')) ! 33 = 16777216"
proof -
  have "embed test_extern (replicate 16777217 (CHR ''a'')) ! 33 =
          min (code_point_count test_extern (replicate 16777217 (CHR ''a'')) 33) (2 ^ 24)"
    using simpleTextEmbedding_components
            [of test_extern "strings_ToLower test_extern (replicate 16777217 (CHR ''a''))"]
    by (simp add: embed_def code_point_count_def)
  then show ?thesis by (simp add: code_point_count_long)
qed

subsection \<open>Locks and calls\<close>

lemma handle_register_discipline:
  "mutex_discipline False False (fst (snd (handle_register x now pid req r)))"
  by (auto simp add: handle_register_def Let_def save_events_def split: option.splits prod.splits)

lemma gc_range_discipline:
  "mutex_discipline True False (fst (gc_range now pids r) @ evs) = mutex_discipline True False evs"
proof (induction pids arbitrary: r)
  case Nil
  show ?case by simp
next
  case (Cons pid pids)
  show ?case
  proof (cases "Registrations r pid")
    case None
    then show ?thesis using Cons.IH [of r] by simp
  next
    case (Some rcd)
    show ?thesis
    proof (cases "time_Sub now (LastSeen rcd) > 90 * Second")
      case True
      let ?r' = "removeFromIndex pid (Name (ServiceCard rcd))
                   (r\<lparr>Registrations := (Registrations r)(pid := None)\<rparr>)"
      from Some True have "fst (gc_range now (pid # pids) r) =
          delete_events r pid (Name (ServiceCard rcd)) @ fst (gc_range now pids ?r')"
        by (simp add: Let_def split: prod.splits)
      then show ?thesis using Cons.IH [of ?r'] by (simp add: delete_events_def)
    next
      case False
      with Some show ?thesis using Cons.IH [of r] by simp
    qed
  qed
qed

lemma fst_gcTick: "fst (gcTick now pids r) = MuLock # fst (gc_range now pids r) @ [MuUnlock]"
  by (simp add: gcTick_def split: prod.splits)

text \<open>
  Claim C10, as amended. In every run of the stream handler, of an eviction tick and of
  the restore, the two mutexes are never held together, and the upsert to the vector index
  and the restore's read of the durable store are made with the state mutex released; the
  writes to the durable store (the save of the heartbeat path, the save of the
  new-registration path, the delete of the eviction loop) are made while the state mutex
  is held.
\<close>

theorem C10_store_calls_under_mutex:
  "mutex_discipline False False (fst (snd (handleStream x now names pid req r)))
   \<and> mutex_discipline False False (fst (gcTick now pids r))
   \<and> mutex_discipline False False (fst (snd (restoreStateFromRedis x now sc pids r)))"
proof (intro conjI)
  show "mutex_discipline False False (fst (snd (handleStream x now names pid req r)))"
    using handle_register_discipline [of x now pid req r]
    by (simp add: handleStream_def handle_find_def Let_def)
  show "mutex_discipline False False (fst (gcTick now pids r))"
    by (simp add: fst_gcTick gc_range_discipline)
  show "mutex_discipline False False (fst (snd (restoreStateFromRedis x now sc pids r)))"
    by (simp add: restoreStateFromRedis_def split: sum.splits)
qed

text \<open>
  Claim C10 as stated has no call to the durable store made while the state mutex is
  held. A heartbeat of peer A saves the record between the lock and the unlock; so do a
  new registration and the eviction of a peer.
\<close>

theorem C10_store_call_inside_mutex_counterexample:
  "fst (snd (handleStream test_extern (30 * Second) [] ''peerA''
               (register_req ''math2'' ''tx1'' (Finite 10) None) node1)) =
     [MuLock, MuUnlock, MuLock,
      CallSaveRegistration ''peerA'' (stored_record (30 * Second) ''math''), MuUnlock] \<and>
   \<not> calls_outside_mutex False
       (fst (snd (handleStream test_extern (30 * Second) [] ''peerA''
                    (register_req ''math2'' ''tx1'' (Finite 10) None) node1))) \<and>
   \<not> calls_outside_mutex False (fst (snd (handleStream test_extern 0 [] ''peerA'' first_req node0))) \<and>
   \<not> calls_outside_mutex False (fst (gcTick (100 * Second) [''peerA''] node1))"
  by (simp add: eval_defs first_req_def node1_def stored_record_def gcTick_def)

subsection \<open>Eviction\<close>

lemma time_Sub_gt_90: "(time_Sub now t > 90 * Second) = (now - t > 90 * Second)"
  by (simp add: time_Sub_def Second_def maxDuration_def minDuration_def)

lemma index_get_removeFromIndex:
  "index_get (ServiceIndex (removeFromIndex pid n r)) m =
     (if m = n then filter (\<lambda>q. q \<noteq> pid) (index_get (ServiceIndex r) n)
      else index_get (ServiceIndex r) m)"
  by (simp add: removeFromIndex_def index_get_def Let_def)

lemma gc_range_Cons_evict:
  assumes "Registrations r pid = Some rcd" and "now - LastSeen rcd > 90 * Second"
  shows "gc_range now (pid # pids) r =
           (delete_events r pid (Name (ServiceCard rcd)) @
              fst (gc_range now pids (removeFromIndex pid (Name (ServiceCard rcd))
                     (r\<lparr>Registrations := (Registrations r)(pid := None)\<rparr>))),
            snd (gc_range now pids (removeFromIndex pid (Name (ServiceCard rcd))
                     (r\<lparr>Registrations := (Registrations r)(pid := None)\<rparr>))))"
  using assms by (simp add: time_Sub_gt_90 Let_def split: prod.splits)

lemma gc_range_Cons_keep:
  assumes "Registrations r pid = None \<or>
           (\<exists>rcd. Registrations r pid = Some rcd \<and> \<not> now - LastSeen rcd > 90 * Second)"
  shows "gc_range now (pid # pids) r = gc_range now pids r"
proof (cases "Registrations r pid")
  case None
  then show ?thesis by simp
next
  case (Some rcd)
  with assms have "\<not> now - LastSeen rcd > 90 * Second" by simp
  then have "\<not> time_Sub now (LastSeen rcd) > 90 * Second"
    by (simp add: time_Sub_gt_90)
  with Some show ?thesis by simp
qed

lemma gc_range_regs:
  "Registrations (snd (gc_range now pids r)) p =
     (case Registrations r p of
        None \<Rightarrow> None
      | Some rcd \<Rightarrow> if p \<in> set pids \<and> now - LastSeen rcd > 90 * Second then None else Some rcd)"
proof (induction pids arbitrary: r)
  case Nil
  show ?case by (simp split: option.splits)
next
  case (Cons pid pids)
  show ?case
  proof (cases "Registrations r pid")
    case None
    then have "gc_range now (pid # pids) r = gc_range now pids r"
      by (intro gc_range_Cons_keep) simp
    then show ?thesis using Cons.IH [of r] None by (auto split: option.splits)
  next
    case (Some rcd)
    show ?thesis
    proof (cases "now - LastSeen rcd > 90 * Second")
      case True
      let ?r' = "removeFromIndex pid (Name (ServiceCard rcd))
                   (r\<lparr>Registrations := (Registrations r)(pid := None)\<rparr>)"
      have "snd (gc_range now (pid # pids) r) = snd (gc_range now pids ?r')"
        using gc_range_Cons_evict [OF Some True] by simp
      then show ?thesis using Cons.IH [of ?r'] Some True
        by (auto simp add: removeFromIndex_frame split: option.splits)
    next
      case False
      with Some have "gc_range now (pid # pids) r = gc_range now pids r"
        by (intro gc_range_Cons_keep) simp
      then show ?thesis using Cons.IH [of r] Some False by (auto split: option.splits)
    qed
  qed
qed

lemma gc_range_index_kept:
  assumes "\<not> (q \<in> set pids \<and> (\<exists>rcd. Registrations r q = Some rcd \<and> now - LastSeen rcd > 90 * Second))"
  shows "(q \<in> set (index_get (ServiceIndex (snd (gc_range now pids r))) n)) =
         (q \<in> set (index_get (ServiceIndex r) n))"
  using assms
proof (induction pids arbitrary: r)
  case Nil
  show ?case by simp
next
  case (Cons pid pids)
  show ?case
  proof (cases "\<exists>rcd. Registrations r pid = Some rcd \<and> now - LastSeen rcd > 90 * Second")
    case True
    then obtain rcd where rcd: "Registrations r pid = Some rcd" "now - LastSeen rcd > 90 * Second"
      by blast
    let ?r' = "removeFromIndex pid (Name (ServiceCard rcd))
                 (r\<lparr>Registrations := (Registrations r)(pid := None)\<rparr>)"
    have ne: "q \<noteq> pid" using Cons.prems rcd by auto
    have eq: "snd (gc_range now (pid # pids) r) = snd (gc_range now pids ?r')"
      using gc_range_Cons_evict [OF rcd] by simp
    have "\<not> (q \<in> set pids \<and> (\<exists>rcd. Registrations ?r' q = Some rcd \<and> now - LastSeen rcd > 90 * Second))"
      using Cons.prems ne by (auto simp add: removeFromIndex_frame)
    from Cons.IH [OF this] eq ne show ?thesis
      by (simp add: index_get_removeFromIndex)
  next
    case False
    then have keep: "gc_range now (pid # pids) r = gc_range now pids r"
      by (intro gc_range_Cons_keep) (cases "Registrations r pid", auto)
    have "\<not> (q \<in> set pids \<and> (\<exists>rcd. Registrations r q = Some rcd \<and> now - LastSeen rcd > 90 * Second))"
      using Cons.prems by auto
    from Cons.IH [OF this] keep show ?thesis by simp
  qed
qed

lemma gc_range_index_evicted:
  assumes "p \<in> set pids" and "Registrations r p = Some rcd" and "now - LastSeen rcd > 90 * Second"
  shows "p \<notin> set (index_get (ServiceIndex (snd (gc_range now pids r))) (Name (ServiceCard rcd)))"
  using assms
proof (induction pids arbitrary: r)
  case Nil
  then show ?case by simp
next
  case (Cons pid pids)
  show ?case
  proof (cases "pid = p")
    case True
    let ?r' = "removeFromIndex p (Name (ServiceCard rcd))
                 (r\<lparr>Registrations := (Registrations r)(p := None)\<rparr>)"
    have eq: "snd (gc_range now (pid # pids) r) = snd (gc_range now pids ?r')"
      using gc_range_Cons_evict [OF Cons.prems(2,3)] True by simp
    have "\<not> (p \<in> set pids \<and> (\<exists>rcd. Registrations ?r' p = Some rcd \<and> now - LastSeen rcd > 90 * Second))"
      by (simp add: removeFromIndex_frame)
    from gc_range_index_kept [OF this] eq show ?thesis
      by (simp add: index_get_removeFromIndex)
  next
    case False
    then have mem: "p \<in> set pids" using Cons.prems(1) by simp
    show ?thesis
    proof (cases "\<exists>rcd'. Registrations r pid = Some rcd' \<and> now - LastSeen rcd' > 90 * Second")
      case True
      then obtain rcd' where rcd': "Registrations r pid = Some rcd'" "now - LastSeen rcd' > 90 * Second"
        by blast
      let ?r' = "removeFromIndex pid (Name (ServiceCard rcd'))
                   (r\<lparr>Registrations := (Registrations r)(pid := None)\<rparr>)"
      have eq: "snd (gc_range now (pid # pids) r) = snd (gc_range now pids ?r')"
        using gc_range_Cons_evict [OF rcd'] by simp
      have "Registrations ?r' p = Some rcd"
        using Cons.prems(2) False by (simp add: removeFromIndex_frame)
      from Cons.IH [OF mem this Cons.prems(3)] eq show ?thesis by simp
    next
      case False
      then have keep: "gc_range now (pid # pids) r = gc_range now pids r"
        by (intro gc_range_Cons_keep) (cases "Registrations r pid", auto)
      from Cons.IH [OF mem Cons.prems(2,3)] keep show ?thesis by simp
    qed
  qed
qed

lemma gc_range_deletes:
  assumes "p \<in> set pids" and "Registrations r p = Some rcd" and "now - LastSeen rcd > 90 * Second"
    and "storage r"
  shows "CallDeleteRegistration p (Name (ServiceCard rcd)) \<in> set (fst (gc_range now pids r))"
  using assms
proof (induction pids arbitrary: r)
  case Nil
  then show ?case by simp
next
  case (Cons pid pids)
  show ?case
  proof (cases "pid = p")
    case True
    then show ?thesis
      using gc_range_Cons_evict [OF Cons.prems(2,3), of pids] Cons.prems(4)
      by (simp add: delete_events_def)
  next
    case False
    then have mem: "p \<in> set pids" using Cons.prems(1) by simp
    show ?thesis
    proof (cases "\<exists>rcd'. Registrations r pid = Some rcd' \<and> now - LastSeen rcd' > 90 * Second")
      case True
      then obtain rcd' where rcd': "Registrations r pid = Some rcd'" "now - LastSeen rcd' > 90 * Second"
        by blast
      let ?r' = "removeFromIndex pid (Name (ServiceCard rcd'))
                   (r\<lparr>Registrations := (Registrations r)(pid := None)\<rparr>)"
      have "Registrations ?r' p = Some rcd" "storage ?r'"
        using Cons.prems(2,4) False by (simp_all add: removeFromIndex_frame)
      from Cons.IH [OF mem this(1) Cons.prems(3) this(2)] gc_range_Cons_evict [OF rcd', of pids]
      show ?thesis by simp
    next
      case False
      then have keep: "gc_range now (pid # pids) r = gc_range now pids r"
        by (intro gc_range_Cons_keep) (cases "Registrations r pid", auto)
      from Cons.IH [OF mem Cons.prems(2,3,4)] keep show ?thesis by simp
    qed
  qed
qed

lemma find_providers_no_registrations:
  assumes "Registrations r = Map.empty"
  shows "find_providers x names q r = []"
  using assms
  by (auto simp add: find_providers_def List.map_filter_def split: option.splits)

text \<open>
  Claim C5, as amended. At a tick of the eviction loop, exactly the registrations whose
  \<open>last_seen\<close> is more than 90 seconds before \<open>now\<close> are removed: such a record leaves
  the registrations map, its peer leaves the index list of its service name, and a delete
  is sent to the durable store when one is configured; every other record stays as it is,
  and its peer stays in the index lists it was in. Hence a peer that is not heard of again
  is removed by the first tick that comes more than 90 seconds after its registration, and
  once every registered record has been removed so, a \<open>find\<close> returns
  \<open>{success: true}\<close> with no providers.
\<close>

theorem C5_eviction_tick:
  assumes "set pids = dom (Registrations r)"
    and "gcTick now pids r = (evs, r')"
  shows "(\<forall>p rcd. Registrations r p = Some rcd \<longrightarrow>
            (if now - LastSeen rcd > 90 * Second
             then Registrations r' p = None \<and>
                  p \<notin> set (index_get (ServiceIndex r') (Name (ServiceCard rcd))) \<and>
                  (storage r \<longrightarrow> CallDeleteRegistration p (Name (ServiceCard rcd)) \<in> set evs)
             else Registrations r' p = Some rcd \<and>
                  (\<forall>n. (p \<in> set (index_get (ServiceIndex r') n)) =
                       (p \<in> set (index_get (ServiceIndex r) n)))))
       \<and> (\<forall>p. Registrations r p = None \<longrightarrow> Registrations r' p = None)
       \<and> ((\<forall>p rcd. Registrations r p = Some rcd \<longrightarrow> now - LastSeen rcd > 90 * Second) \<longrightarrow>
            (\<forall>req. Method req = ''find'' \<longrightarrow>
               handleStream x now2 names pid req r' =
                 (\<lparr>Success = True, Providers = [], Error = []\<rparr>, [MuLock, MuUnlock], r')))"
proof -
  have r': "r' = snd (gc_range now pids r)"
    using assms(2) snd_gcTick [of now pids r] by simp
  have evs: "set (fst (gc_range now pids r)) \<subseteq> set evs"
    using assms(2) fst_gcTick [of now pids r] by auto
  have mem: "p \<in> set pids" if "Registrations r p = Some rcd" for p rcd
    using that assms(1) by auto
  show ?thesis
  proof (intro conjI allI impI)
    fix p rcd
    assume reg: "Registrations r p = Some rcd"
    show "if now - LastSeen rcd > 90 * Second
          then Registrations r' p = None \<and>
               p \<notin> set (index_get (ServiceIndex r') (Name (ServiceCard rcd))) \<and>
               (storage r \<longrightarrow> CallDeleteRegistration p (Name (ServiceCard rcd)) \<in> set evs)
          else Registrations r' p = Some rcd \<and>
               (\<forall>n. (p \<in> set (index_get (ServiceIndex r') n)) =
                    (p \<in> set (index_get (ServiceIndex r) n)))"
    proof (cases "now - LastSeen rcd > 90 * Second")
      case True
      have "Registrations r' p = None"
        using gc_range_regs [of now pids r p] reg True mem [OF reg] r' by simp
      moreover have "p \<notin> set (index_get (ServiceIndex r') (Name (ServiceCard rcd)))"
        using gc_range_index_evicted [OF mem [OF reg] reg True] r' by simp
      moreover have "CallDeleteRegistration p (Name (ServiceCard rcd)) \<in> set evs" if "storage r"
        using gc_range_deletes [OF mem [OF reg] reg True that] evs by auto
      ultimately show ?thesis using True by simp
    next
      case False
      have "Registrations r' p = Some rcd"
        using gc_range_regs [of now pids r p] reg False r' by simp
      moreover have "(p \<in> set (index_get (ServiceIndex r') n)) =
                     (p \<in> set (index_get (ServiceIndex r) n))" for n
        using gc_range_index_kept [of p pids r now n] reg False r' by simp
      ultimately show ?thesis using False by simp
    qed
  next
    fix p
    assume "Registrations r p = None"
    then show "Registrations r' p = None"
      using gc_range_regs [of now pids r p] r' by simp
  next
    fix req :: RegistryRequest
    assume all: "\<forall>p rcd. Registrations r p = Some rcd \<longrightarrow> now - LastSeen rcd > 90 * Second"
      and m: "Method req = ''find''"
    have "Registrations r' p = None" for p
      using gc_range_regs [of now pids r p] r' all mem [of p]
      by (cases "Registrations r p") auto
    then have "Registrations r' = Map.empty" by auto
    then show "handleStream x now2 names pid req r' =
                 (\<lparr>Success = True, Providers = [], Error = []\<rparr>, [MuLock, MuUnlock], r')"
      using m by (simp add: handleStream_def handle_find_def Let_def resp0_def
                    find_providers_no_registrations)
  qed
qed

text \<open>
  C5 at scenario S5 with a tick at 95 s: peer A, registered at 0 s, is removed, and
  \<open>find\<close> with the empty query returns no provider.
\<close>

theorem C5_eviction_tick_witness:
  "set [''peerA''] = dom (Registrations node1) \<and>
   Registrations node1 ''peerA'' = Some (stored_record 0 ''math'') \<and>
   95 * Second - LastSeen (stored_record 0 ''math'') > 90 * Second \<and>
   Registrations (snd (gcTick (95 * Second) [''peerA''] node1)) ''peerA'' = None \<and>
   ''peerA'' \<notin> set (index_get (ServiceIndex (snd (gcTick (95 * Second) [''peerA''] node1))) ''math'') \<and>
   CallDeleteRegistration ''peerA'' ''math'' \<in> set (fst (gcTick (95 * Second) [''peerA''] node1)) \<and>
   handleStream test_extern (96 * Second) [''math''] ''peerB'' (find_req [])
       (snd (gcTick (95 * Second) [''peerA''] node1)) =
     (\<lparr>Success = True, Providers = [], Error = []\<rparr>, [MuLock, MuUnlock],
      snd (gcTick (95 * Second) [''peerA''] node1))"
proof -
  have d: "set [''peerA''] = dom (Registrations node1)"
    by (simp add: node1_def)
  have g: "gcTick (95 * Second) [''peerA''] node1 =
             (fst (gcTick (95 * Second) [''peerA''] node1), snd (gcTick (95 * Second) [''peerA''] node1))"
    by simp
  have reg: "Registrations node1 ''peerA'' = Some (stored_record 0 ''math'')"
    by (simp add: node1_def)
  have old: "95 * Second - LastSeen (stored_record 0 ''math'') > 90 * Second"
    by (simp add: stored_record_def Second_def)
  have all: "\<forall>p rcd. Registrations node1 p = Some rcd \<longrightarrow> 95 * Second - LastSeen rcd > 90 * Second"
    by (simp add: node1_def stored_record_def Second_def)
  have st: "storage node1" by (simp add: node1_def node0_simps)
  have nm: "Name (ServiceCard (stored_record 0 ''math'')) = ''math''"
    by (simp add: stored_record_def card_of_def)
  have fm: "Method (find_req []) = ''find''" by (simp add: find_req_def)
  note t = C5_eviction_tick [OF d g, where x = test_extern and ?now2.0 = "96 * Second"
      and names = "[''math'']" and pid = "''peerB''"]
  from t reg old have 1: "Registrations (snd (gcTick (95 * Second) [''peerA''] node1)) ''peerA'' = None"
    and 2: "''peerA'' \<notin> set (index_get (ServiceIndex (snd (gcTick (95 * Second) [''peerA''] node1)))
              (Name (ServiceCard (stored_record 0 ''math''))))"
    and 3: "storage node1 \<longrightarrow> CallDeleteRegistration ''peerA'' (Name (ServiceCard (stored_record 0 ''math'')))
              \<in> set (fst (gcTick (95 * Second) [''peerA''] node1))"
    by (metis (no_types, lifting))+
  from t all fm have 4: "handleStream test_extern (96 * Second) [''math''] ''peerB'' (find_req [])
       (snd (gcTick (95 * Second) [''peerA''] node1)) =
     (\<lparr>Success = True, Providers = [], Error = []\<rparr>, [MuLock, MuUnlock],
      snd (gcTick (95 * Second) [''peerA''] node1))"
    by blast
  show ?thesis using d reg old 1 2 3 4 st nm by simp
qed

text \<open>
  Claim C5 as stated has the peer absent at 95 s. The ticker has a period of 10 s and any
  phase: when it fires at 9 s, 19 s, ..., 89 s and next at 99 s, no tick falls between
  90 s and 95 s, the tick at 89 s keeps the record (its age is not over 90 s), and at 95 s
  the peer is still registered and found.
\<close>

theorem C5_present_at_95_counterexample:
  "9 * Second + 8 * tickerPeriod < 95 * Second \<and> 95 * Second < 9 * Second + 9 * tickerPeriod \<and>
   Registrations (run test_extern ticks_until_95 node1) ''peerA'' = Some (stored_record 0 ''math'') \<and>
   fst (handleStream test_extern (95 * Second) [''math''] ''peerB'' (find_req [])
          (run test_extern ticks_until_95 node1)) =
     \<lparr>Success = True, Providers = [addr_of ''peerA''], Error = []\<rparr>"
  by (simp add: eval_defs ticks_until_95_def tickerPeriod_def node1_def stored_record_def)

subsection \<open>Restore\<close>

lemma restore_range_survivors:
  "restore_range x now es m = m ++ map_of (rev (List.map_filter (survivor x now) es))"
proof (induction es arbitrary: m)
  case Nil
  show ?case by simp
next
  case (Cons e es)
  obtain key got where e: "e = (key, got)" by (cases e)
  show ?case
  proof (cases "survivor x now e")
    case None
    then have "restore_range x now (e # es) m = restore_range x now es m"
      unfolding e
      by (auto simp add: survivor_def time_Sub_gt_90 split: option.splits if_splits)
    then show ?thesis using Cons.IH [of m] None by simp
  next
    case (Some pr)
    obtain pid rcd where pr: "pr = (pid, rcd)" by (cases pr)
    let ?svs = "List.map_filter (survivor x now) es"
    from Some have a: "restore_range x now (e # es) m = restore_range x now es (m(pid \<mapsto> rcd))"
      unfolding e pr
      by (auto simp add: survivor_def time_Sub_gt_90 split: option.splits if_splits)
    have b: "List.map_filter (survivor x now) (e # es) = (pid, rcd) # ?svs"
      using Some pr by simp
    have c: "m ++ map_of (rev ((pid, rcd) # ?svs)) = m(pid \<mapsto> rcd) ++ map_of (rev ?svs)"
      by (rule ext) (simp add: map_add_def split: option.splits)
    show ?thesis
      unfolding a b c by (rule Cons.IH)
  qed
qed

lemma index_get_addToIndex:
  "(q \<in> set (index_get (ServiceIndex (addToIndex p n r)) k)) =
     (q \<in> set (index_get (ServiceIndex r) k) \<or> (q = p \<and> k = n))"
  by (auto simp add: addToIndex_def index_get_def Let_def split: option.splits)

lemma restore_install_regs:
  "Registrations (restore_install m pids r) p =
     (if p \<in> set pids \<and> m p \<noteq> None then m p else Registrations r p)"
proof (induction pids arbitrary: r)
  case Nil
  show ?case by simp
next
  case (Cons pid pids)
  show ?case
  proof (cases "m pid")
    case None
    then show ?thesis using Cons.IH [of r] by auto
  next
    case (Some rcd)
    then show ?thesis
      using Cons.IH [of "addToIndex pid (Name (ServiceCard rcd))
                           (r\<lparr>Registrations := (Registrations r)(pid \<mapsto> rcd)\<rparr>)"]
      by (auto simp add: addToIndex_frame)
  qed
qed

lemma restore_install_index:
  "(q \<in> set (index_get (ServiceIndex (restore_install m pids r)) k)) =
     (q \<in> set (index_get (ServiceIndex r) k) \<or>
      (q \<in> set pids \<and> (\<exists>rcd. m q = Some rcd \<and> Name (ServiceCard rcd) = k)))"
proof (induction pids arbitrary: r)
  case Nil
  show ?case by simp
next
  case (Cons pid pids)
  show ?case
  proof (cases "m pid")
    case None
    then show ?thesis using Cons.IH [of r] by auto
  next
    case (Some rcd)
    then show ?thesis
      using Cons.IH [of "addToIndex pid (Name (ServiceCard rcd))
                           (r\<lparr>Registrations := (Registrations r)(pid \<mapsto> rcd)\<rparr>)"]
      by (auto simp add: index_get_addToIndex)
  qed
qed

lemma restoreStateFromRedis_state:
  assumes "storage r" and "\<not> scan_err sc"
    and "Registrations r = Map.empty" and "ServiceIndex r = Map.empty"
    and "set pids = dom (restore_range x now (scan_entries sc) Map.empty)"
  shows "fst (restoreStateFromRedis x now sc pids r) = None"
    and "Registrations (snd (snd (restoreStateFromRedis x now sc pids r))) =
           restore_range x now (scan_entries sc) Map.empty"
    and "(q \<in> set (index_get (ServiceIndex (snd (snd (restoreStateFromRedis x now sc pids r)))) k)) =
           (\<exists>rcd. restore_range x now (scan_entries sc) Map.empty q = Some rcd \<and>
                  Name (ServiceCard rcd) = k)"
proof -
  let ?m = "restore_range x now (scan_entries sc) Map.empty"
  show "fst (restoreStateFromRedis x now sc pids r) = None"
    using assms(1,2) by (simp add: restoreStateFromRedis_def RestoreAllRegistrations_def Let_def)
  show "Registrations (snd (snd (restoreStateFromRedis x now sc pids r))) = ?m"
  proof (cases "dom ?m = {}")
    case True
    then show ?thesis using assms(1,2,3)
      by (simp add: restoreStateFromRedis_def RestoreAllRegistrations_def Let_def)
  next
    case False
    have "Registrations (restore_install ?m pids r) p = ?m p" for p
      using restore_install_regs [of ?m pids r p] assms(3,5) by (cases "?m p") auto
    then have "Registrations (restore_install ?m pids r) = ?m" by (rule ext)
    with False show ?thesis using assms(1,2)
      by (simp add: restoreStateFromRedis_def RestoreAllRegistrations_def Let_def)
  qed
  show "(q \<in> set (index_get (ServiceIndex (snd (snd (restoreStateFromRedis x now sc pids r)))) k)) =
           (\<exists>rcd. ?m q = Some rcd \<and> Name (ServiceCard rcd) = k)"
  proof (cases "dom ?m = {}")
    case True
    then show ?thesis using assms(1,2,4)
      by (simp add: restoreStateFromRedis_def RestoreAllRegistrations_def Let_def index_get_def)
  next
    case False
    have "(q \<in> set (index_get (ServiceIndex (restore_install ?m pids r)) k)) =
            (\<exists>rcd. ?m q = Some rcd \<and> Name (ServiceCard rcd) = k)"
      using restore_install_index [of q ?m pids r k] assms(4,5)
      by (auto simp add: index_get_def)
    with False show ?thesis using assms(1,2)
      by (simp add: restoreStateFromRedis_def RestoreAllRegistrations_def Let_def)
  qed
qed

lemma survivor_fresh:
  "survivor x now e = Some (p, rcd) \<Longrightarrow> \<not> now - LastSeen rcd > 90 * Second"
  by (auto simp add: survivor_def split: option.splits if_splits)

lemma in_set_map_filter: "(y \<in> set (List.map_filter f xs)) = (\<exists>x\<in>set xs. f x = Some y)"
  by (induction xs) (auto split: option.splits)

text \<open>
  Claim C7. At startup (empty maps) with a durable store configured and a scan that ends
  without error, the restored registrations map is exactly the surviving records of the
  scan, keyed by the peer identity of their keys (the later scanned wins when two keys
  name the same peer): every record in it was read from the store, is not older than 90
  seconds, and has its peer in the index under its card's name; every surviving record's
  peer is registered, with that very record when the peers are distinct; and the index
  lists no one else.
\<close>

theorem C7_restore:
  assumes "storage r" and "Registrations r = Map.empty" and "ServiceIndex r = Map.empty"
    and "\<not> scan_err sc"
    and "RestoreAllRegistrations x now sc = Inr stored"
    and "set pids = dom stored"
    and "restoreStateFromRedis x now sc pids r = (err, evs, r')"
  shows "err = None
       \<and> Registrations r' = map_of (rev (List.map_filter (survivor x now) (scan_entries sc)))
       \<and> (\<forall>p rcd. Registrations r' p = Some rcd \<longrightarrow>
            \<not> now - LastSeen rcd > 90 * Second \<and>
            (\<exists>e\<in>set (scan_entries sc). survivor x now e = Some (p, rcd)) \<and>
            p \<in> set (index_get (ServiceIndex r') (Name (ServiceCard rcd))))
       \<and> (\<forall>e\<in>set (scan_entries sc). \<forall>p rcd.
            survivor x now e = Some (p, rcd) \<longrightarrow> p \<in> dom (Registrations r'))
       \<and> (distinct (map fst (List.map_filter (survivor x now) (scan_entries sc))) \<longrightarrow>
            (\<forall>e\<in>set (scan_entries sc). \<forall>p rcd.
               survivor x now e = Some (p, rcd) \<longrightarrow> Registrations r' p = Some rcd))
       \<and> (\<forall>q k. q \<in> set (index_get (ServiceIndex r') k) \<longrightarrow>
            (\<exists>rcd. Registrations r' q = Some rcd \<and> Name (ServiceCard rcd) = k))"
proof -
  let ?svs = "List.map_filter (survivor x now) (scan_entries sc)"
  let ?m = "restore_range x now (scan_entries sc) Map.empty"
  have stored: "stored = ?m"
    using assms(4,5) by (simp add: RestoreAllRegistrations_def Let_def)
  have m: "?m = map_of (rev ?svs)"
    by (simp add: restore_range_survivors)
  have pids: "set pids = dom ?m" using assms(6) stored by simp
  note st = restoreStateFromRedis_state [OF assms(1) assms(4) assms(2) assms(3) pids]
  have err: "err = None" using st(1) assms(7) by simp
  have regs: "Registrations r' = map_of (rev ?svs)" using st(2) assms(7) m by simp
  have idx: "(q \<in> set (index_get (ServiceIndex r') k)) =
               (\<exists>rcd. Registrations r' q = Some rcd \<and> Name (ServiceCard rcd) = k)" for q k
    using st(3) [of q k] st(2) assms(7) by simp
  have svs: "((p, rcd) \<in> set ?svs) = (\<exists>e\<in>set (scan_entries sc). survivor x now e = Some (p, rcd))"
    for p rcd
    by (rule in_set_map_filter)
  show ?thesis
  proof (intro conjI allI impI ballI)
    show "err = None" by (rule err)
    show "Registrations r' = map_of (rev ?svs)" by (rule regs)
  next
    fix p rcd
    assume a: "Registrations r' p = Some rcd"
    then have "(p, rcd) \<in> set ?svs"
      using regs map_of_SomeD [of "rev ?svs" p rcd] by simp
    then show ex: "\<exists>e\<in>set (scan_entries sc). survivor x now e = Some (p, rcd)"
      using svs by simp
    then show "\<not> now - LastSeen rcd > 90 * Second"
      using survivor_fresh by blast
    show "p \<in> set (index_get (ServiceIndex r') (Name (ServiceCard rcd)))"
      using idx a by simp
  next
    fix e p rcd
    assume "e \<in> set (scan_entries sc)" and "survivor x now e = Some (p, rcd)"
    then have "(p, rcd) \<in> set (rev ?svs)" using svs by auto
    then have "p \<in> fst ` set (rev ?svs)" by force
    then show "p \<in> dom (Registrations r')"
      unfolding regs dom_map_of_conv_image_fst .
  next
    fix e p rcd
    assume d: "distinct (map fst ?svs)"
      and "e \<in> set (scan_entries sc)" and "survivor x now e = Some (p, rcd)"
    then have mem: "(p, rcd) \<in> set (rev ?svs)" using svs by auto
    have d': "distinct (map fst (rev ?svs))" using d by (simp add: rev_map [symmetric])
    show "Registrations r' p = Some rcd"
      unfolding regs using map_of_is_SomeI [OF d' mem] .
  next
    fix q k
    assume "q \<in> set (index_get (ServiceIndex r') k)"
    then show "\<exists>rcd. Registrations r' q = Some rcd \<and> Name (ServiceCard rcd) = k"
      using idx by simp
  qed
qed

lemma survivor_S6:
  "survivor test_extern (100 * Second) (''registration:peerA'', Some ''fresh'') =
     Some (''peerA'', stored_record (70 * Second) ''math'')"
  "survivor test_extern (100 * Second) (''registration:peerB'', Some ''stale'') = None"
  by (simp_all add: survivor_def test_extern_def test_Unmarshal_def stored_record_def
        strings_TrimPrefix_def Second_def)

lemma restore_S6_evaluated:
  "restoreStateFromRedis test_extern (100 * Second) scan_S6 [''peerA''] node0 =
     (None, [CallRestoreAllRegistrations, MuLock, MuUnlock],
      node0\<lparr>Registrations := [''peerA'' \<mapsto> stored_record (70 * Second) ''math''],
            ServiceIndex := [''math'' \<mapsto> [''peerA'']]\<rparr>)"
  by (simp add: restoreStateFromRedis_def RestoreAllRegistrations_def scan_S6_def test_extern_def
        test_Unmarshal_def stored_record_def card_of_def strings_TrimPrefix_def time_Sub_def
        Second_def maxDuration_def minDuration_def node0_def new_node_def addToIndex_def
        index_get_def)

text \<open>
  C7 at scenario S6: of a record aged 30 s and a record aged 120 s, only the first is
  restored.
\<close>

theorem C7_restore_witness:
  "storage node0 \<and> \<not> scan_err scan_S6 \<and>
   RestoreAllRegistrations test_extern (100 * Second) scan_S6 =
     Inr [''peerA'' \<mapsto> stored_record (70 * Second) ''math''] \<and>
   set [''peerA''] = dom [''peerA'' \<mapsto> stored_record (70 * Second) ''math''] \<and>
   Registrations (snd (snd (restoreStateFromRedis test_extern (100 * Second) scan_S6 [''peerA''] node0))) =
     [''peerA'' \<mapsto> stored_record (70 * Second) ''math''] \<and>
   ''peerA'' \<in> set (index_get (ServiceIndex
      (snd (snd (restoreStateFromRedis test_extern (100 * Second) scan_S6 [''peerA''] node0)))) ''math'') \<and>
   Registrations (snd (snd (restoreStateFromRedis test_extern (100 * Second) scan_S6 [''peerA''] node0)))
     ''peerB'' = None"
proof -
  let ?res = "restoreStateFromRedis test_extern (100 * Second) scan_S6 [''peerA''] node0"
  have st: "storage node0" and e1: "Registrations node0 = Map.empty"
    and e2: "ServiceIndex node0 = Map.empty"
    by (simp_all add: node0_simps)
  have ne: "\<not> scan_err scan_S6" by (simp add: scan_S6_def)
  have ra: "RestoreAllRegistrations test_extern (100 * Second) scan_S6 =
              Inr [''peerA'' \<mapsto> stored_record (70 * Second) ''math'']"
    by (simp add: RestoreAllRegistrations_def scan_S6_def restore_range_survivors survivor_S6)
  have pd: "set [''peerA''] = dom [''peerA'' \<mapsto> stored_record (70 * Second) ''math'']"
    by simp
  have res: "?res = (fst ?res, fst (snd ?res), snd (snd ?res))" by simp
  have svs: "List.map_filter (survivor test_extern (100 * Second)) (scan_entries scan_S6) =
               [(''peerA'', stored_record (70 * Second) ''math'')]"
    by (simp add: scan_S6_def survivor_S6)
  have nm: "Name (ServiceCard (stored_record (70 * Second) ''math'')) = ''math''"
    by (simp add: stored_record_def card_of_def)
  note t = C7_restore [OF st e1 e2 ne ra pd res]
  from t have regs: "Registrations (snd (snd ?res)) = [''peerA'' \<mapsto> stored_record (70 * Second) ''math'']"
    unfolding svs by simp
  from t have "\<forall>p rcd. Registrations (snd (snd ?res)) p = Some rcd \<longrightarrow>
      p \<in> set (index_get (ServiceIndex (snd (snd ?res))) (Name (ServiceCard rcd)))"
    by blast
  with regs nm have "''peerA'' \<in> set (index_get (ServiceIndex (snd (snd ?res))) ''math'')"
    by (metis fun_upd_same)
  with st ne ra pd regs show ?thesis by simp
qed

subsection \<open>The invariants over the operations\<close>

text \<open>
  Apart from the path of C1, every operation keeps both invariants, and Invariant B is
  kept by every operation. Both are read through the number of times a peer occurs in the
  list of a name.
\<close>

lemma count_list_0_iff: "(count_list l q = 0) = (q \<notin> set l)"
  by (induction l) auto

lemma count_list_filter_neq:
  "count_list (filter (\<lambda>q. q \<noteq> p) l) q = (if q = p then 0 else count_list l q)"
  by (induction l) auto

lemma inv_A_count:
  "inv_A r = (\<forall>pid rcd. Registrations r pid = Some rcd \<longrightarrow>
                count_list (index_get (ServiceIndex r) (Name (ServiceCard rcd))) pid = 1)"
proof -
  have "(\<exists>l. ServiceIndex r n = Some l \<and> count_list l pid = 1) =
        (count_list (index_get (ServiceIndex r) n) pid = 1)" for n pid
    by (cases "ServiceIndex r n") (simp_all add: index_get_def)
  then show ?thesis by (simp add: inv_A_def)
qed

lemma inv_B_count:
  "inv_B r = (\<forall>n pid. 0 < count_list (index_get (ServiceIndex r) n) pid \<longrightarrow>
                (\<exists>rcd. Registrations r pid = Some rcd \<and> Name (ServiceCard rcd) = n))"
proof -
  have "(\<exists>l. ServiceIndex r n = Some l \<and> pid \<in> set l) =
        (0 < count_list (index_get (ServiceIndex r) n) pid)" for n pid
    using count_list_0_iff [of "index_get (ServiceIndex r) n" pid]
    by (cases "ServiceIndex r n") (auto simp add: index_get_def)
  then show ?thesis unfolding inv_B_def by blast
qed

lemma count_addToIndex:
  "count_list (index_get (ServiceIndex (addToIndex p n r)) k) q =
     (if k = n \<and> q = p \<and> count_list (index_get (ServiceIndex r) n) p = 0 then 1
      else count_list (index_get (ServiceIndex r) k) q)"
  using count_list_0_iff [of "index_get (ServiceIndex r) n" p]
  by (auto simp add: addToIndex_def Let_def index_get_def split: option.splits)

lemma count_removeFromIndex:
  "count_list (index_get (ServiceIndex (removeFromIndex p n r)) k) q =
     (if k = n \<and> q = p then 0 else count_list (index_get (ServiceIndex r) k) q)"
  by (simp add: index_get_removeFromIndex count_list_filter_neq)

lemma gc_range_count:
  "count_list (index_get (ServiceIndex (snd (gc_range now pids r))) n) q =
     (if q \<in> set pids \<and>
         (\<exists>rcd. Registrations r q = Some rcd \<and> now - LastSeen rcd > 90 * Second \<and>
                Name (ServiceCard rcd) = n)
      then 0 else count_list (index_get (ServiceIndex r) n) q)"
proof (induction pids arbitrary: r)
  case Nil
  show ?case by simp
next
  case (Cons pid pids)
  show ?case
  proof (cases "\<exists>rcd. Registrations r pid = Some rcd \<and> now - LastSeen rcd > 90 * Second")
    case True
    then obtain rcd where rcd: "Registrations r pid = Some rcd" "now - LastSeen rcd > 90 * Second"
      by blast
    let ?r' = "removeFromIndex pid (Name (ServiceCard rcd))
                 (r\<lparr>Registrations := (Registrations r)(pid := None)\<rparr>)"
    have eq: "snd (gc_range now (pid # pids) r) = snd (gc_range now pids ?r')"
      using gc_range_Cons_evict [OF rcd] by simp
    show ?thesis
      unfolding eq Cons.IH [of ?r'] using rcd
      by (auto simp add: count_removeFromIndex removeFromIndex_frame)
  next
    case False
    then have keep: "gc_range now (pid # pids) r = gc_range now pids r"
      by (intro gc_range_Cons_keep) (cases "Registrations r pid", auto)
    show ?thesis
      unfolding keep Cons.IH [of r] using False by auto
  qed
qed

lemma gcTick_keeps_inv_B:
  assumes "inv_B r"
  shows "inv_B (snd (gcTick now pids r))"
  unfolding inv_B_count snd_gcTick
proof (intro allI impI)
  fix n pid
  assume pos: "0 < count_list (index_get (ServiceIndex (snd (gc_range now pids r))) n) pid"
  then have c: "0 < count_list (index_get (ServiceIndex r) n) pid"
    and ne: "\<not> (pid \<in> set pids \<and>
         (\<exists>rcd. Registrations r pid = Some rcd \<and> now - LastSeen rcd > 90 * Second \<and>
                Name (ServiceCard rcd) = n))"
    by (auto simp add: gc_range_count split: if_splits)
  from c assms obtain rcd where rcd: "Registrations r pid = Some rcd" "Name (ServiceCard rcd) = n"
    unfolding inv_B_count by blast
  with ne have "Registrations (snd (gc_range now pids r)) pid = Some rcd"
    by (auto simp add: gc_range_regs)
  with rcd show "\<exists>rcd. Registrations (snd (gc_range now pids r)) pid = Some rcd \<and>
                       Name (ServiceCard rcd) = n"
    by blast
qed

lemma gcTick_keeps_inv_A:
  assumes "inv_A r"
  shows "inv_A (snd (gcTick now pids r))"
  unfolding inv_A_count snd_gcTick
proof (intro allI impI)
  fix pid rcd
  assume "Registrations (snd (gc_range now pids r)) pid = Some rcd"
  then have reg: "Registrations r pid = Some rcd"
    and keep: "\<not> (pid \<in> set pids \<and> now - LastSeen rcd > 90 * Second)"
    by (auto simp add: gc_range_regs split: option.splits if_splits)
  from reg assms have "count_list (index_get (ServiceIndex r) (Name (ServiceCard rcd))) pid = 1"
    unfolding inv_A_count by blast
  with reg keep
  show "count_list (index_get (ServiceIndex (snd (gc_range now pids r))) (Name (ServiceCard rcd))) pid = 1"
    by (auto simp add: gc_range_count)
qed

lemma inv_seen_update:
  "inv_A (r\<lparr>seenStakeNonces := s\<rparr>) = inv_A r" "inv_B (r\<lparr>seenStakeNonces := s\<rparr>) = inv_B r"
  by (simp_all add: inv_A_def inv_B_def)

lemma inv_same_card:
  assumes "Registrations r pid = Some e" and "ServiceCard e' = ServiceCard e"
  shows "inv_A (r\<lparr>Registrations := (Registrations r)(pid \<mapsto> e')\<rparr>) = inv_A r"
    and "inv_B (r\<lparr>Registrations := (Registrations r)(pid \<mapsto> e')\<rparr>) = inv_B r"
proof -
  let ?r' = "r\<lparr>Registrations := (Registrations r)(pid \<mapsto> e')\<rparr>"
  have named: "(\<exists>rcd. Registrations ?r' q = Some rcd \<and> Name (ServiceCard rcd) = n) =
               (\<exists>rcd. Registrations r q = Some rcd \<and> Name (ServiceCard rcd) = n)" for q n
    using assms by (cases "q = pid") simp_all
  show "inv_B ?r' = inv_B r"
    unfolding inv_B_count named by simp
  have counted: "(\<forall>rcd. Registrations ?r' q = Some rcd \<longrightarrow>
                   count_list (index_get (ServiceIndex ?r') (Name (ServiceCard rcd))) q = 1) =
                 (\<forall>rcd. Registrations r q = Some rcd \<longrightarrow>
                   count_list (index_get (ServiceIndex r) (Name (ServiceCard rcd))) q = 1)" for q
    using assms by (cases "q = pid") simp_all
  show "inv_A ?r' = inv_A r"
    unfolding inv_A_count using counted by blast
qed

lemma removeFromIndex_keeps_inv_B:
  assumes "inv_B r"
  shows "inv_B (removeFromIndex p n r)"
  using assms unfolding inv_B_count
  by (auto simp add: count_removeFromIndex removeFromIndex_frame split: if_splits)

text \<open>
  Installing a record for \<open>pid\<close>, after the peer has been taken from the list of the name
  it was registered under, if that name differs.
\<close>

lemma install_counts:
  assumes "r2 = (case Registrations r pid of
                   None \<Rightarrow> r
                 | Some e \<Rightarrow> if Name (ServiceCard e) \<noteq> n
                             then removeFromIndex pid (Name (ServiceCard e)) r else r)"
    and "r3 = addToIndex pid n (r2\<lparr>Registrations := (Registrations r2)(pid \<mapsto> rcd)\<rparr>)"
  shows "Registrations r3 = (Registrations r)(pid \<mapsto> rcd)"
    and "q \<noteq> pid \<Longrightarrow> count_list (index_get (ServiceIndex r3) k) q =
                        count_list (index_get (ServiceIndex r) k) q"
    and "count_list (index_get (ServiceIndex r3) k) pid =
           (if k = n then (if count_list (index_get (ServiceIndex r) n) pid = 0 then 1
                           else count_list (index_get (ServiceIndex r) n) pid)
            else if (\<exists>e. Registrations r pid = Some e \<and> Name (ServiceCard e) = k) then 0
            else count_list (index_get (ServiceIndex r) k) pid)"
proof -
  show "Registrations r3 = (Registrations r)(pid \<mapsto> rcd)"
    unfolding assms
    by (cases "Registrations r pid") (simp_all add: addToIndex_frame removeFromIndex_frame)
  show "count_list (index_get (ServiceIndex r3) k) q =
          count_list (index_get (ServiceIndex r) k) q" if "q \<noteq> pid"
    unfolding assms using that
    by (cases "Registrations r pid") (simp_all add: count_addToIndex count_removeFromIndex)
  show "count_list (index_get (ServiceIndex r3) k) pid =
           (if k = n then (if count_list (index_get (ServiceIndex r) n) pid = 0 then 1
                           else count_list (index_get (ServiceIndex r) n) pid)
            else if (\<exists>e. Registrations r pid = Some e \<and> Name (ServiceCard e) = k) then 0
            else count_list (index_get (ServiceIndex r) k) pid)"
    unfolding assms
    by (cases "Registrations r pid") (auto simp add: count_addToIndex count_removeFromIndex)
qed

lemma install_keeps_inv_B:
  assumes "inv_B r"
    and "r2 = (case Registrations r pid of
                   None \<Rightarrow> r
                 | Some e \<Rightarrow> if Name (ServiceCard e) \<noteq> n
                             then removeFromIndex pid (Name (ServiceCard e)) r else r)"
    and "r3 = addToIndex pid n (r2\<lparr>Registrations := (Registrations r2)(pid \<mapsto> rcd)\<rparr>)"
    and "Name (ServiceCard rcd) = n"
  shows "inv_B r3"
  unfolding inv_B_count
proof (intro allI impI)
  note c = install_counts [OF assms(2,3)]
  fix k q
  assume pos: "0 < count_list (index_get (ServiceIndex r3) k) q"
  show "\<exists>rc. Registrations r3 q = Some rc \<and> Name (ServiceCard rc) = k"
  proof (cases "q = pid")
    case False
    with pos have "0 < count_list (index_get (ServiceIndex r) k) q" using c(2) by simp
    with assms(1) obtain rc where "Registrations r q = Some rc" "Name (ServiceCard rc) = k"
      unfolding inv_B_count by blast
    with False show ?thesis unfolding c(1) by simp
  next
    case True
    have "k = n"
    proof (rule ccontr)
      assume kn: "k \<noteq> n"
      with pos True have ne: "\<not> (\<exists>e. Registrations r pid = Some e \<and> Name (ServiceCard e) = k)"
        and "0 < count_list (index_get (ServiceIndex r) k) pid"
        using c(3) [of k] by (auto split: if_splits)
      with assms(1) show False unfolding inv_B_count by blast
    qed
    with True assms(4) show ?thesis unfolding c(1) by simp
  qed
qed

lemma install_keeps_inv_A:
  assumes "inv_A r" and "inv_B r"
    and "r2 = (case Registrations r pid of
                   None \<Rightarrow> r
                 | Some e \<Rightarrow> if Name (ServiceCard e) \<noteq> n
                             then removeFromIndex pid (Name (ServiceCard e)) r else r)"
    and "r3 = addToIndex pid n (r2\<lparr>Registrations := (Registrations r2)(pid \<mapsto> rcd)\<rparr>)"
    and "Name (ServiceCard rcd) = n"
  shows "inv_A r3"
  unfolding inv_A_count
proof (intro allI impI)
  note c = install_counts [OF assms(3,4)]
  fix q rc
  assume reg: "Registrations r3 q = Some rc"
  show "count_list (index_get (ServiceIndex r3) (Name (ServiceCard rc))) q = 1"
  proof (cases "q = pid")
    case False
    with reg have "Registrations r q = Some rc" unfolding c(1) by simp
    with assms(1) have "count_list (index_get (ServiceIndex r) (Name (ServiceCard rc))) q = 1"
      unfolding inv_A_count by blast
    with False show ?thesis using c(2) by simp
  next
    case True
    with reg have rc: "rc = rcd" unfolding c(1) by simp
    have "count_list (index_get (ServiceIndex r) n) pid = 0 \<or>
          count_list (index_get (ServiceIndex r) n) pid = 1"
    proof (cases "count_list (index_get (ServiceIndex r) n) pid = 0")
      case False
      then have "0 < count_list (index_get (ServiceIndex r) n) pid" by simp
      with assms(2) obtain e where "Registrations r pid = Some e" "Name (ServiceCard e) = n"
        unfolding inv_B_count by blast
      with assms(1) show ?thesis unfolding inv_A_count by blast
    qed simp
    then show ?thesis using True rc assms(5) c(3) [of n] by auto
  qed
qed

lemma handle_register_heartbeat_state:
  assumes "isHeartbeat (Registrations r pid) req"
  shows "\<exists>e e'. Registrations r pid = Some e \<and> ServiceCard e' = ServiceCard e \<and>
           snd (snd (handle_register x now pid req r)) =
             r\<lparr>Registrations := (Registrations r)(pid \<mapsto> e')\<rparr>"
proof -
  from assms obtain e where e: "Registrations r pid = Some e"
    by (auto simp add: isHeartbeat_def split: option.splits)
  show ?thesis
  proof (cases "ProviderInfo req")
    case None
    with assms e show ?thesis
      by (intro exI [of _ e] exI [of _ "e\<lparr>LastSeen := now\<rparr>"])
         (simp add: handle_register_def Let_def)
  next
    case (Some info)
    with assms e show ?thesis
      by (intro exI [of _ e] exI [of _ "e\<lparr>LastSeen := now, AddrInfo := info\<rparr>"])
         (simp add: handle_register_def Let_def)
  qed
qed

lemma handle_register_rejected_state:
  assumes "\<not> isHeartbeat (Registrations r pid) req"
    and "checkStakeValidity x r pid (req_StakeProof req) \<noteq> None \<or>
         (case req_StakeProof req of None \<Rightarrow> True | Some sp \<Rightarrow> replay_key sp \<in> seenStakeNonces r)"
  shows "snd (snd (handle_register x now pid req r)) = r"
  using assms by (auto simp add: handle_register_def Let_def split: option.splits)

lemma handle_register_accepted_state:
  assumes "\<not> isHeartbeat (Registrations r pid) req"
    and "checkStakeValidity x r pid (req_StakeProof req) = None"
    and "req_StakeProof req = Some sp"
    and "replay_key sp \<notin> seenStakeNonces r"
    and "r1 = r\<lparr>seenStakeNonces := insert (replay_key sp) (seenStakeNonces r)\<rparr>"
    and "r2 = (case Registrations r1 pid of
                 None \<Rightarrow> r1
               | Some e \<Rightarrow> if Name (ServiceCard e) \<noteq> Name (Card req)
                           then removeFromIndex pid (Name (ServiceCard e)) r1 else r1)"
  shows "snd (snd (handle_register x now pid req r)) =
           (case ProviderInfo req of
              None \<Rightarrow> r2
            | Some info \<Rightarrow>
                addToIndex pid (Name (Card req))
                  (r2\<lparr>Registrations := (Registrations r2)(pid \<mapsto>
                        \<lparr>LastSeen = now, ServiceCard = Card req,
                         StakeProof = req_StakeProof req, AddrInfo = info\<rparr>)\<rparr>))"
  using assms(1-4) unfolding assms(5,6)
  by (auto simp add: handle_register_def Let_def split: option.splits)

lemma handle_register_keeps_inv_B:
  assumes "inv_B r"
  shows "inv_B (snd (snd (handle_register x now pid req r)))"
proof (cases "isHeartbeat (Registrations r pid) req")
  case True
  from handle_register_heartbeat_state [OF True, of x now] obtain e e'
    where "Registrations r pid = Some e" "ServiceCard e' = ServiceCard e"
      "snd (snd (handle_register x now pid req r)) = r\<lparr>Registrations := (Registrations r)(pid \<mapsto> e')\<rparr>"
    by blast
  then show ?thesis using assms inv_same_card(2) by simp
next
  case False
  show ?thesis
  proof (cases "checkStakeValidity x r pid (req_StakeProof req) \<noteq> None \<or>
         (case req_StakeProof req of None \<Rightarrow> True | Some sp \<Rightarrow> replay_key sp \<in> seenStakeNonces r)")
    case True
    then show ?thesis using handle_register_rejected_state [OF False True] assms by simp
  next
    case rej: False
    then obtain sp where sp: "req_StakeProof req = Some sp" "replay_key sp \<notin> seenStakeNonces r"
      and ok: "checkStakeValidity x r pid (req_StakeProof req) = None"
      by (cases "req_StakeProof req") auto
    define r1 where "r1 = r\<lparr>seenStakeNonces := insert (replay_key sp) (seenStakeNonces r)\<rparr>"
    define r2 where "r2 = (case Registrations r1 pid of
                 None \<Rightarrow> r1
               | Some e \<Rightarrow> if Name (ServiceCard e) \<noteq> Name (Card req)
                           then removeFromIndex pid (Name (ServiceCard e)) r1 else r1)"
    note st = handle_register_accepted_state [OF False ok sp r1_def r2_def, of now]
    have b1: "inv_B r1" using assms by (simp add: r1_def inv_seen_update)
    show ?thesis
    proof (cases "ProviderInfo req")
      case None
      have "inv_B r2"
        unfolding r2_def using b1 removeFromIndex_keeps_inv_B
        by (cases "Registrations r1 pid") simp_all
      with None st show ?thesis by simp
    next
      case (Some info)
      let ?rcd = "\<lparr>LastSeen = now, ServiceCard = Card req,
                    StakeProof = req_StakeProof req, AddrInfo = info\<rparr>"
      have "inv_B (addToIndex pid (Name (Card req))
                     (r2\<lparr>Registrations := (Registrations r2)(pid \<mapsto> ?rcd)\<rparr>))"
        by (rule install_keeps_inv_B [OF b1 r2_def refl]) simp
      with Some st show ?thesis by simp
    qed
  qed
qed

lemma handle_register_keeps_inv_A:
  assumes "inv_A r" and "inv_B r"
    and "\<not> (ProviderInfo req = None \<and> \<not> isHeartbeat (Registrations r pid) req \<and>
            checkStakeValidity x r pid (req_StakeProof req) = None \<and>
            (case req_StakeProof req of None \<Rightarrow> False | Some sp \<Rightarrow> replay_key sp \<notin> seenStakeNonces r) \<and>
            (case Registrations r pid of
               None \<Rightarrow> False
             | Some e \<Rightarrow> Name (ServiceCard e) \<noteq> Name (Card req)))"
  shows "inv_A (snd (snd (handle_register x now pid req r)))"
proof (cases "isHeartbeat (Registrations r pid) req")
  case True
  from handle_register_heartbeat_state [OF True, of x now] obtain e e'
    where "Registrations r pid = Some e" "ServiceCard e' = ServiceCard e"
      "snd (snd (handle_register x now pid req r)) = r\<lparr>Registrations := (Registrations r)(pid \<mapsto> e')\<rparr>"
    by blast
  then show ?thesis using assms(1) inv_same_card(1) by simp
next
  case False
  show ?thesis
  proof (cases "checkStakeValidity x r pid (req_StakeProof req) \<noteq> None \<or>
         (case req_StakeProof req of None \<Rightarrow> True | Some sp \<Rightarrow> replay_key sp \<in> seenStakeNonces r)")
    case True
    then show ?thesis using handle_register_rejected_state [OF False True] assms(1) by simp
  next
    case rej: False
    then obtain sp where sp: "req_StakeProof req = Some sp" "replay_key sp \<notin> seenStakeNonces r"
      and ok: "checkStakeValidity x r pid (req_StakeProof req) = None"
      by (cases "req_StakeProof req") auto
    define r1 where "r1 = r\<lparr>seenStakeNonces := insert (replay_key sp) (seenStakeNonces r)\<rparr>"
    define r2 where "r2 = (case Registrations r1 pid of
                 None \<Rightarrow> r1
               | Some e \<Rightarrow> if Name (ServiceCard e) \<noteq> Name (Card req)
                           then removeFromIndex pid (Name (ServiceCard e)) r1 else r1)"
    note st = handle_register_accepted_state [OF False ok sp r1_def r2_def, of now]
    have a1: "inv_A r1" and b1: "inv_B r1"
      using assms(1,2) by (simp_all add: r1_def inv_seen_update)
    show ?thesis
    proof (cases "ProviderInfo req")
      case None
      with assms(3) False ok sp have "r2 = r1"
        unfolding r2_def r1_def by (cases "Registrations r pid") auto
      with None st a1 show ?thesis by simp
    next
      case (Some info)
      let ?rcd = "\<lparr>LastSeen = now, ServiceCard = Card req,
                    StakeProof = req_StakeProof req, AddrInfo = info\<rparr>"
      have "inv_A (addToIndex pid (Name (Card req))
                     (r2\<lparr>Registrations := (Registrations r2)(pid \<mapsto> ?rcd)\<rparr>))"
        by (rule install_keeps_inv_A [OF a1 b1 r2_def refl]) simp
      with Some st show ?thesis by simp
    qed
  qed
qed

lemma step_keeps_inv_B:
  assumes "inv_B r"
  shows "inv_B (step x o1 r)"
proof (cases o1)
  case (Stream now names pid req)
  then show ?thesis
    using handle_register_keeps_inv_B [OF assms, of x now pid req] assms
    by (simp add: handleStream_def handle_find_def Let_def)
next
  case (Tick now pids)
  then show ?thesis using gcTick_keeps_inv_B [OF assms] by simp
qed

lemma step_keeps_invariants:
  assumes "inv_A r" and "inv_B r"
    and "\<And>now names pid req. o1 = Stream now names pid req \<Longrightarrow> \<not> renames_without_info x pid req r"
  shows "inv_A (step x o1 r) \<and> inv_B (step x o1 r)"
proof (cases o1)
  case (Stream now names pid req)
  from assms(3) [OF Stream] have "Method req = ''register'' \<Longrightarrow>
      inv_A (snd (snd (handle_register x now pid req r)))"
    by (intro handle_register_keeps_inv_A [OF assms(1,2)]) (auto simp add: renames_without_info_def)
  then have "inv_A (step x o1 r)"
    using Stream assms(1) by (simp add: handleStream_def handle_find_def Let_def)
  then show ?thesis using step_keeps_inv_B [OF assms(2)] by simp
next
  case (Tick now pids)
  then show ?thesis
    using gcTick_keeps_inv_A [OF assms(1)] gcTick_keeps_inv_B [OF assms(2)] by simp
qed

lemma new_node_invariants: "inv_A (new_node host m q st)" "inv_B (new_node host m q st)"
  by (simp_all add: inv_A_def inv_B_def new_node_def)

lemma run_keeps_inv_B:
  assumes "inv_B r"
  shows "inv_B (run x ops r)"
  using assms
proof (induction ops arbitrary: r)
  case Nil
  then show ?case by simp
next
  case (Cons o1 ops)
  then show ?case using step_keeps_inv_B [of r x o1] by simp
qed

subsection \<open>find in a state that satisfies the invariants\<close>

lemma find_providers_collected:
  "find_providers x names query r =
     map (\<lambda>pid. AddrInfo (the (Registrations r pid))) (collected_peers x names query r)"
proof -
  have "List.map_filter (\<lambda>pid. map_option AddrInfo (Registrations r pid)) l =
        map (\<lambda>pid. AddrInfo (the (Registrations r pid))) (filter (\<lambda>pid. Registrations r pid \<noteq> None) l)"
    for l
    by (induction l) (auto split: option.splits)
  then show ?thesis
    by (simp add: find_providers_def collected_peers_def map_concat comp_def option.case_distrib
          if_distrib cong: option.case_cong if_cong)
qed

lemma count_list_concat:
  "count_list (concat ls) q = sum_list (map (\<lambda>l. count_list l q) ls)"
  by (induction ls) simp_all

lemma sum_list_indicator:
  assumes "distinct ns"
  shows "sum_list (map (\<lambda>n. if n = k \<and> P then (1::nat) else 0) ns) = (if k \<in> set ns \<and> P then 1 else 0)"
  using assms by (induction ns) auto

lemma collected_peers_exact:
  assumes "inv_A r" and "inv_B r" and "distinct names" and "set names = dom (ServiceIndex r)"
  shows "count_list (collected_peers x names query r) pid =
           (case Registrations r pid of
              None \<Rightarrow> 0
            | Some rcd \<Rightarrow> if matches_query x query rcd then 1 else 0)"
proof -
  let ?f = "\<lambda>name. case ServiceIndex r name of
          None \<Rightarrow> []
        | Some peerIDs \<Rightarrow>
            if strings_Contains (strings_ToLower x name) query
            then filter (\<lambda>pid. Registrations r pid \<noteq> None) peerIDs
            else []"
  have cnt: "count_list (collected_peers x names query r) pid =
               sum_list (map (\<lambda>n. count_list (?f n) pid) names)"
    by (simp add: collected_peers_def count_list_concat comp_def)
  show ?thesis
  proof (cases "Registrations r pid")
    case None
    have "count_list (?f n) pid = 0" for n
      using None by (auto simp add: count_list_0_iff split: option.splits)
    then show ?thesis using cnt None by simp
  next
    case (Some rcd)
    let ?k = "Name (ServiceCard rcd)"
    have one: "count_list (index_get (ServiceIndex r) ?k) pid = 1"
      using assms(1) Some unfolding inv_A_count by blast
    have zero: "count_list (index_get (ServiceIndex r) n) pid = 0" if "n \<noteq> ?k" for n
    proof (rule ccontr)
      assume "count_list (index_get (ServiceIndex r) n) pid \<noteq> 0"
      then have "0 < count_list (index_get (ServiceIndex r) n) pid" by simp
      with assms(2) obtain rcd' where "Registrations r pid = Some rcd'" "Name (ServiceCard rcd') = n"
        unfolding inv_B_count by blast
      with Some that show False by simp
    qed
    have key: "?k \<in> set names"
    proof -
      from one have "ServiceIndex r ?k \<noteq> None"
        by (auto simp add: index_get_def split: option.splits)
      then show ?thesis using assms(4) by auto
    qed
    have filt: "count_list (filter (\<lambda>pid. Registrations r pid \<noteq> None) l) pid = count_list l pid" for l
      using Some by (induction l) auto
    have each: "count_list (?f n) pid =
                  (if n = ?k \<and> matches_query x query rcd then 1 else 0)" for n
    proof (cases "n = ?k")
      case True
      then show ?thesis using one filt
        by (auto simp add: matches_query_def index_get_def split: option.splits)
    next
      case False
      then show ?thesis using zero [OF False] filt
        by (auto simp add: index_get_def split: option.splits)
    qed
    show ?thesis
      unfolding cnt each sum_list_indicator [OF assms(3)] using key Some by simp
  qed
qed

end
